theory Spec2Isabelle
  imports Main "HOL-Library.Word"
begin

unbundle bit_operations_syntax

section \<open>The CBOR streaming parser of jsoncons (\<open>cbor_parser.hpp\<close>)\<close>

text \<open>
  A shallow embedding of \<open>basic_cbor_parser\<close>. Member functions become functions on a
  record of the parser's members; the \<open>std::error_code\<close> out-parameter and the log of the
  visitor's callbacks are two more fields of that record. Functions that loop or recurse
  take a step bound and return \<open>None\<close> when the bound is used up or when a
  \<open>JSONCONS_ASSERT\<close> throws, so \<open>Some p\<close> always is a normal return of the C++ function.
\<close>

subsection \<open>Data\<close>

type_synonym byte = "8 word"

text \<open>Text (\<open>std::string\<close>) is a sequence of bytes; \<open>ascii\<close> writes a literal.\<close>

type_synonym string_type = "byte list"

definition ascii :: "string \<Rightarrow> string_type" where
  "ascii s = map of_char s"

datatype cbor_errc =
    unexpected_eof
  | unknown_type
  | invalid_utf8_text_string
  | number_too_large
  | max_nesting_depth_exceeded
  | stringref_too_large
  | invalid_bigdec
  | invalid_bigfloat

datatype cbor_major_type =
    mt_unsigned_integer
  | mt_negative_integer
  | mt_byte_string
  | mt_text_string
  | mt_array
  | mt_map
  | mt_semantic_tag
  | mt_simple

datatype semantic_tag =
    tag_none
  | tag_undefined
  | tag_datetime
  | tag_timestamp
  | tag_bigint
  | tag_bigdec
  | tag_bigfloat
  | tag_base16
  | tag_base64
  | tag_base64url
  | tag_uri
  | tag_clamped
  | tag_multi_dim_row_major
  | tag_multi_dim_column_major

datatype parse_mode =
    mode_root
  | mode_before_done
  | mode_array
  | mode_indefinite_array
  | mode_map_key
  | mode_map_value
  | mode_indefinite_map_key
  | mode_indefinite_map_value
  | mode_multi_dim

text \<open>\<open>struct mapped_string\<close>: the type field selects which of the two payloads is used.\<close>

datatype mapped_string =
    mapped_text string_type
  | mapped_bytes "byte list"

text \<open>\<open>struct parse_state\<close>; \<open>std::size_t\<close> counters are naturals below \<open>2 ^ 64\<close>.\<close>

record parse_state =
  mode :: parse_mode
  length_f :: nat
  index_f :: nat
  pop_stringref_map_stack :: bool

definition mk_parse_state :: "parse_mode \<Rightarrow> nat \<Rightarrow> bool \<Rightarrow> parse_state" where
  "mk_parse_state m len pop =
     \<lparr>mode = m, length_f = len, index_f = 0, pop_stringref_map_stack = pop\<rparr>"

text \<open>
  A \<open>double\<close> is kept as the IEEE bit pattern that was read: four bytes widened from
  \<open>float\<close>, or eight bytes.
\<close>

datatype ieee_bits =
    from_float "32 word"
  | from_double "64 word"

datatype elem_type =
    el_uint8 | el_uint16 | el_uint32 | el_uint64
  | el_int8 | el_int16 | el_int32 | el_int64
  | el_half | el_float | el_double

text \<open>
  The callbacks of \<open>json_visitor\<close>. A typed array carries the bit pattern of each element
  as a natural number.
\<close>

datatype event =
    Uint64_value "64 word" semantic_tag
  | Int64_value "64 word" semantic_tag
  | Half_value "16 word" semantic_tag
  | Double_value ieee_bits semantic_tag
  | Bool_value bool semantic_tag
  | Null_value semantic_tag
  | String_value string_type semantic_tag
  | Byte_string_value "byte list" semantic_tag
  | Typed_array elem_type "nat list" semantic_tag
  | Key string_type
  | Begin_array "nat option" semantic_tag
  | End_array
  | Begin_object "nat option" semantic_tag
  | End_object
  | Begin_multi_dim "nat list" semantic_tag
  | End_multi_dim
  | Flush

subsection \<open>The byte source\<close>

text \<open>
  Modelled from the spec: the byte source (\<open>jsoncons/source.hpp\<close> is not part of the
  sources at hand). \<open>peek\<close> does not advance, \<open>get\<close> consumes one byte, \<open>read\<close> and
  \<open>ignore\<close> consume up to \<open>n\<close> bytes, and \<open>eof_m\<close> records that an earlier call ran past
  the end of the input.
\<close>

record source =
  data :: "byte list"
  eof_m :: bool

definition mk_source :: "byte list \<Rightarrow> source" where
  "mk_source bs = \<lparr>data = bs, eof_m = False\<rparr>"

definition source_peek :: "source \<Rightarrow> byte option" where
  "source_peek s = (case data s of [] \<Rightarrow> None | b # _ \<Rightarrow> Some b)"

definition source_get :: "source \<Rightarrow> byte option \<times> source" where
  "source_get s =
     (case data s of
        [] \<Rightarrow> (None, s\<lparr>eof_m := True\<rparr>)
      | b # bs \<Rightarrow> (Some b, s\<lparr>data := bs\<rparr>))"

definition source_read :: "source \<Rightarrow> nat \<Rightarrow> byte list \<times> source" where
  "source_read s n =
     (if length (data s) < n then (data s, s\<lparr>data := [], eof_m := True\<rparr>)
      else (take n (data s), s\<lparr>data := drop n (data s)\<rparr>))"

definition source_ignore :: "source \<Rightarrow> nat \<Rightarrow> source" where
  "source_ignore s n = snd (source_read s n)"

text \<open>\<open>(uint8_t)source_.peek()\<close>: the end-of-input value \<open>-1\<close> is cut to \<open>0xFF\<close>.\<close>

definition peek_byte :: "source \<Rightarrow> byte" where
  "peek_byte s = (case source_peek s of None \<Rightarrow> 0xFF | Some b \<Rightarrow> b)"

subsection \<open>Collaborators outside the parser\<close>

text \<open>
  The visitor and the helper routines of other headers are parameters of the model.
  \<open>visit\<close> is the visitor's answer to a callback, given the callbacks it has seen.
  \<open>validate\<close> says that \<open>unicons::validate\<close> reports no error. \<open>bignum_dump\<close> and
  \<open>bignum_dump_hex_string\<close> are the text that \<open>bignum(signum, data, size).dump(s)\<close> and
  \<open>dump_hex_string(s)\<close> append to \<open>s\<close>; \<open>write_integer\<close>, \<open>uinteger_to_hex_string\<close> and
  \<open>prettify_string\<close> likewise are the text appended, the last with the fixed arguments
  \<open>-4\<close> and \<open>17\<close>. \<open>json_string_encoder\<close> is the text a \<open>json_string_encoder\<close> has
  written for the callbacks it received, and \<open>uninit\<close> is the content a local buffer has
  before it is written.
\<close>

record env =
  visit :: "event list \<Rightarrow> event \<Rightarrow> bool"
  validate :: "string_type \<Rightarrow> bool"
  encode_base64url :: "byte list \<Rightarrow> string_type"
  bignum_dump :: "int \<Rightarrow> byte list \<Rightarrow> string_type"
  bignum_dump_hex_string :: "int \<Rightarrow> byte list \<Rightarrow> string_type"
  write_integer :: "int \<Rightarrow> string_type"
  uinteger_to_hex_string :: "64 word \<Rightarrow> string_type"
  prettify_string :: "string_type \<Rightarrow> int \<Rightarrow> string_type"
  json_string_encoder :: "event list \<Rightarrow> string_type"
  uninit :: "nat \<Rightarrow> byte"

text \<open>
  Modelled from the spec: \<open>min_length_for_stringref\<close> (\<open>cbor_detail.hpp\<close> is not part of
  the sources at hand): 3 for a table of up to 23 entries, 4 up to 255, 5 up to 65535,
  and the higher thresholds of the stringref specification beyond.
\<close>

definition min_length_for_stringref :: "nat \<Rightarrow> nat" where
  "min_length_for_stringref index =
     (if index \<le> 23 then 3
      else if index \<le> 255 then 4
      else if index \<le> 65535 then 5
      else if index \<le> 4294967295 then 7
      else 11)"

subsection \<open>The parser object\<close>

record basic_cbor_parser =
  stringref_tag :: bool
  stringref_namespace_tag :: bool
  item_tag :: bool
  source_m :: source
  max_nesting_depth :: int
  more_m :: bool
  done_m :: bool
  text_buffer_m :: string_type
  bytes_buffer_m :: "byte list"
  item_tag_m :: "64 word"
  state_stack_m :: "parse_state list"
  typed_array_m :: "byte list"
  shape_m :: "nat list"
  stringref_map_stack_m :: "mapped_string list list"
  nesting_depth_m :: int
  ec :: "cbor_errc option"
  events :: "event list"

text \<open>
  A member \<open>x_\<close> of the class is the field \<open>x_m\<close>; \<open>options_.max_nesting_depth()\<close> is
  the field \<open>max_nesting_depth\<close>, \<open>ec\<close> is the error code that the caller passes to
  \<open>parse\<close>, and \<open>events\<close> is the log of the visitor's callbacks. \<open>state_stack_m\<close> and
  \<open>stringref_map_stack_m\<close> keep \<open>back()\<close> at the head of the list. The three bits of
  \<open>other_tags_\<close> are the first three fields.
\<close>

definition make_parser :: "source \<Rightarrow> int \<Rightarrow> basic_cbor_parser" where
  "make_parser src depth =
     \<lparr>stringref_tag = False, stringref_namespace_tag = False, item_tag = False,
      source_m = src, max_nesting_depth = depth,
      more_m = True, done_m = False, text_buffer_m = [], bytes_buffer_m = [],
      item_tag_m = 0, state_stack_m = [mk_parse_state mode_root 0 False],
      typed_array_m = [], shape_m = [], stringref_map_stack_m = [],
      nesting_depth_m = 0, ec = None, events = []\<rparr>"

definition restart :: "basic_cbor_parser \<Rightarrow> basic_cbor_parser" where
  "restart p = p\<lparr>more_m := True\<rparr>"

definition reset :: "basic_cbor_parser \<Rightarrow> basic_cbor_parser" where
  "reset p = p\<lparr>state_stack_m := [mk_parse_state mode_root 0 False],
               more_m := True, done_m := False\<rparr>"

definition stopped :: "basic_cbor_parser \<Rightarrow> bool" where
  "stopped p = (\<not> more_m p)"

definition set_error :: "cbor_errc \<Rightarrow> basic_cbor_parser \<Rightarrow> basic_cbor_parser" where
  "set_error e p = p\<lparr>ec := Some e, more_m := False\<rparr>"

text \<open>
  \<open>more_ = visitor.f(...)\<close>: the callback is logged and its answer stored. A callback
  does not set the error code.
\<close>

definition emit :: "env \<Rightarrow> event \<Rightarrow> basic_cbor_parser \<Rightarrow> basic_cbor_parser" where
  "emit E e p = p\<lparr>events := events p @ [e], more_m := visit E (events p) e\<rparr>"

subsection \<open>Heads and arguments\<close>

definition major_type_of :: "byte \<Rightarrow> cbor_major_type" where
  "major_type_of v =
     (if v = 0 then mt_unsigned_integer
      else if v = 1 then mt_negative_integer
      else if v = 2 then mt_byte_string
      else if v = 3 then mt_text_string
      else if v = 4 then mt_array
      else if v = 5 then mt_map
      else if v = 6 then mt_semantic_tag
      else mt_simple)"

definition get_major_type :: "byte \<Rightarrow> cbor_major_type" where
  "get_major_type type = major_type_of (drop_bit 5 type)"

definition get_additional_information_value :: "byte \<Rightarrow> byte" where
  "get_additional_information_value type = type AND 0x1F"

text \<open>
  Modelled from the spec: \<open>big_to_native\<close> (not part of the sources at hand) reads
  big-endian bytes as an unsigned integer.
\<close>

definition big_to_native :: "byte list \<Rightarrow> 64 word" where
  "big_to_native bs = foldl (\<lambda>acc b. push_bit 8 acc OR ucast b) 0 bs"

text \<open>
  \<open>uint8_t buf[n]; source_.read(buf, n);\<close> where the result of \<open>read\<close> is not looked at:
  the bytes that were not read keep what the buffer held before.
\<close>

definition read_buf :: "env \<Rightarrow> source \<Rightarrow> nat \<Rightarrow> byte list \<times> source" where
  "read_buf E s n =
     (let (bs, s') = source_read s n
      in (bs @ map (uninit E) [length bs..<n], s'))"

definition get_uint64_value :: "env \<Rightarrow> basic_cbor_parser \<Rightarrow> 64 word \<times> basic_cbor_parser" where
  "get_uint64_value E p =
     (if eof_m (source_m p) then (0, set_error unexpected_eof p)
      else
        (case source_get (source_m p) of
           (None, s) \<Rightarrow> (0, set_error unexpected_eof (p\<lparr>source_m := s\<rparr>))
         | (Some type, s) \<Rightarrow>
             (let info = get_additional_information_value type in
              if info \<le> 0x17 then (ucast info, p\<lparr>source_m := s\<rparr>)
              else if info = 0x18 then
                (case source_get s of
                   (None, s') \<Rightarrow> (0, set_error unexpected_eof (p\<lparr>source_m := s'\<rparr>))
                 | (Some c, s') \<Rightarrow> (ucast c, p\<lparr>source_m := s'\<rparr>))
              else if info = 0x19 then
                (let (buf, s') = read_buf E s 2 in (big_to_native buf, p\<lparr>source_m := s'\<rparr>))
              else if info = 0x1A then
                (let (buf, s') = read_buf E s 4 in (big_to_native buf, p\<lparr>source_m := s'\<rparr>))
              else if info = 0x1B then
                (let (buf, s') = read_buf E s 8 in (big_to_native buf, p\<lparr>source_m := s'\<rparr>))
              else (0, p\<lparr>source_m := s\<rparr>))))"


text \<open>
  In \<open>get_int64_value\<close> the cast to \<open>int8_t\<close> leaves a value between \<open>-24\<close> and \<open>-1\<close>
  as it is. A short read of a two-, four- or eight-byte argument returns \<open>val\<close>, still
  zero, and sets no error.
\<close>

definition get_int64_value :: "env \<Rightarrow> basic_cbor_parser \<Rightarrow> 64 word \<times> basic_cbor_parser" where
  "get_int64_value E p =
     (if eof_m (source_m p) then (0, set_error unexpected_eof p)
      else
        (let c = peek_byte (source_m p);
             info = get_additional_information_value c
         in case get_major_type c of
              mt_negative_integer \<Rightarrow>
                (let s = source_ignore (source_m p) 1 in
                 if info \<le> 0x17 then (- 1 - ucast info, p\<lparr>source_m := s\<rparr>)
                 else if info = 0x18 then
                   (case source_get s of
                      (None, s') \<Rightarrow> (0, set_error unexpected_eof (p\<lparr>source_m := s'\<rparr>))
                    | (Some c', s') \<Rightarrow> (- 1 - ucast c', p\<lparr>source_m := s'\<rparr>))
                 else if info = 0x19 then
                   (let (buf, s') = source_read s 2 in
                    if length buf \<noteq> 2 then (0, p\<lparr>source_m := s'\<rparr>)
                    else (- 1 - big_to_native buf, p\<lparr>source_m := s'\<rparr>))
                 else if info = 0x1A then
                   (let (buf, s') = source_read s 4 in
                    if length buf \<noteq> 4 then (0, p\<lparr>source_m := s'\<rparr>)
                    else (- 1 - big_to_native buf, p\<lparr>source_m := s'\<rparr>))
                 else if info = 0x1B then
                   (let (buf, s') = source_read s 8 in
                    if length buf \<noteq> 8 then (0, p\<lparr>source_m := s'\<rparr>)
                    else (- 1 - big_to_native buf, p\<lparr>source_m := s'\<rparr>))
                 else (0, p\<lparr>source_m := s\<rparr>))
            | mt_unsigned_integer \<Rightarrow>
                (let (x, p1) = get_uint64_value E p in
                 if ec p1 \<noteq> None then (0, p1)
                 else if x \<le> 0x7FFFFFFFFFFFFFFF then (x, p1)
                 else (0, p1))
            | _ \<Rightarrow> (0, p)))"

definition get_double :: "env \<Rightarrow> basic_cbor_parser \<Rightarrow> ieee_bits \<times> basic_cbor_parser" where
  "get_double E p =
     (if eof_m (source_m p) then (from_double 0, set_error unexpected_eof p)
      else
        (case source_get (source_m p) of
           (None, s) \<Rightarrow> (from_double 0, set_error unexpected_eof (p\<lparr>source_m := s\<rparr>))
         | (Some type, s) \<Rightarrow>
             (let info = get_additional_information_value type in
              if info = 0x1A then
                (let (buf, s') = read_buf E s 4 in
                 if eof_m s' then (from_double 0, set_error unexpected_eof (p\<lparr>source_m := s'\<rparr>))
                 else (from_float (ucast (big_to_native buf)), p\<lparr>source_m := s'\<rparr>))
              else if info = 0x1B then
                (let (buf, s') = read_buf E s 8 in
                 if eof_m s' then (from_double 0, set_error unexpected_eof (p\<lparr>source_m := s'\<rparr>))
                 else (from_double (big_to_native buf), p\<lparr>source_m := s'\<rparr>))
              else (from_double 0, p\<lparr>source_m := s\<rparr>))))"

text \<open>\<open>std::size_t\<close> has 64 bits, so the cast in \<open>get_size\<close> keeps every value.\<close>

definition get_size :: "env \<Rightarrow> basic_cbor_parser \<Rightarrow> nat \<times> basic_cbor_parser" where
  "get_size E p =
     (let (u, p1) = get_uint64_value E p in
      if ec p1 \<noteq> None then (0, p1)
      else
        (let len = (ucast u :: 64 word) in
         if len \<noteq> u then (unat len, set_error number_too_large p1)
         else (unat len, p1)))"

subsection \<open>Tags\<close>

definition item_tags :: "64 word list" where
  "item_tags =
     [0, 1, 0x2, 0x3, 0x04, 0x05, 0x15, 0x16, 0x17, 32, 33, 34, 40, 1040,
      0x40, 0x44, 0x41, 0x45, 0x42, 0x46, 0x43, 0x47, 0x48, 0x49, 0x4D, 0x4A, 0x4E,
      0x4B, 0x4F, 0x50, 0x54, 0x51, 0x55, 0x52, 0x56]"

definition record_tag :: "64 word \<Rightarrow> basic_cbor_parser \<Rightarrow> basic_cbor_parser" where
  "record_tag val p =
     (if val = 25 then p\<lparr>stringref_tag := True\<rparr>
      else if val = 256 then p\<lparr>stringref_namespace_tag := True\<rparr>
      else if val \<in> set item_tags then p\<lparr>item_tag := True, item_tag_m := val\<rparr>
      else p)"

text \<open>
  \<open>read_tags\<close>: the test of the \<open>while\<close> loop and the \<open>peek\<close> before it are one step of
  the recursion.
\<close>

fun read_tags :: "nat \<Rightarrow> env \<Rightarrow> basic_cbor_parser \<Rightarrow> basic_cbor_parser option" where
  "read_tags 0 E p = None"
| "read_tags (Suc n) E p =
     (case source_peek (source_m p) of
        None \<Rightarrow> Some (set_error unexpected_eof p)
      | Some c \<Rightarrow>
          if get_major_type c = mt_semantic_tag then
            (let (val, p1) = get_uint64_value E p in
             if ec p1 \<noteq> None then Some p1
             else read_tags n E (record_tag val p1))
          else Some p)"

definition string_tag :: "64 word \<Rightarrow> semantic_tag" where
  "string_tag t =
     (if t = 0 then tag_datetime
      else if t = 32 then tag_uri
      else if t = 33 then tag_base64url
      else if t = 34 then tag_base64
      else tag_none)"

definition handle_string :: "env \<Rightarrow> string_type \<Rightarrow> basic_cbor_parser \<Rightarrow> basic_cbor_parser" where
  "handle_string E v p =
     (if item_tag p then emit E (String_value v (string_tag (item_tag_m p))) (p\<lparr>item_tag := False\<rparr>)
      else emit E (String_value v tag_none) p)"

subsection \<open>Containers\<close>

text \<open>
  \<open>open_namespace\<close> is the block shared by \<open>begin_array\<close> and \<open>begin_object\<close> that pushes a
  stringref table when tag 256 is pending; it returns the new frame's
  \<open>pop_stringref_map_stack\<close>.
\<close>

definition open_namespace :: "basic_cbor_parser \<Rightarrow> bool \<times> basic_cbor_parser" where
  "open_namespace p =
     (if stringref_namespace_tag p
      then (True, p\<lparr>stringref_map_stack_m := [] # stringref_map_stack_m p,
                     stringref_namespace_tag := False\<rparr>)
      else (False, p))"

definition push_state :: "parse_state \<Rightarrow> basic_cbor_parser \<Rightarrow> basic_cbor_parser" where
  "push_state f p = p\<lparr>state_stack_m := f # state_stack_m p\<rparr>"

definition begin_array :: "env \<Rightarrow> byte \<Rightarrow> basic_cbor_parser \<Rightarrow> basic_cbor_parser" where
  "begin_array E info p =
     (let p1 = p\<lparr>nesting_depth_m := nesting_depth_m p + 1\<rparr> in
      if nesting_depth_m p1 > max_nesting_depth p1
      then p1\<lparr>ec := Some max_nesting_depth_exceeded\<rparr>
      else
        (let (pop, p2) = open_namespace p1 in
         if info = 0x1F then
           (let p3 = emit E (Begin_array None tag_none)
                       (push_state (mk_parse_state mode_indefinite_array 0 pop) p2)
            in p3\<lparr>source_m := source_ignore (source_m p3) 1\<rparr>)
         else
           (let (len, p3) = get_size E p2 in
            if ec p3 \<noteq> None then p3
            else emit E (Begin_array (Some len) tag_none)
                   (push_state (mk_parse_state mode_array len pop) p3))))"

definition begin_object :: "env \<Rightarrow> byte \<Rightarrow> basic_cbor_parser \<Rightarrow> basic_cbor_parser" where
  "begin_object E info p =
     (let p1 = p\<lparr>nesting_depth_m := nesting_depth_m p + 1\<rparr> in
      if nesting_depth_m p1 > max_nesting_depth p1
      then p1\<lparr>ec := Some max_nesting_depth_exceeded\<rparr>
      else
        (let (pop, p2) = open_namespace p1 in
         if info = 0x1F then
           (let p3 = emit E (Begin_object None tag_none)
                       (push_state (mk_parse_state mode_indefinite_map_key 0 pop) p2)
            in p3\<lparr>source_m := source_ignore (source_m p3) 1\<rparr>)
         else
           (let (len, p3) = get_size E p2 in
            if ec p3 \<noteq> None then p3
            else emit E (Begin_object (Some len) tag_none)
                   (push_state (mk_parse_state mode_map_key len pop) p3))))"

text \<open>
  \<open>pop_state\<close> is the tail shared by \<open>end_array\<close> and \<open>end_object\<close>. Both are called
  right after \<open>parse\<close> has read \<open>state_stack_.back()\<close>, so the stack is not empty.
\<close>

definition pop_state :: "basic_cbor_parser \<Rightarrow> basic_cbor_parser" where
  "pop_state p =
     (case state_stack_m p of
        [] \<Rightarrow> p
      | back # rest \<Rightarrow>
          (if pop_stringref_map_stack back
           then p\<lparr>stringref_map_stack_m := tl (stringref_map_stack_m p), state_stack_m := rest\<rparr>
           else p\<lparr>state_stack_m := rest\<rparr>))"

definition end_array :: "env \<Rightarrow> basic_cbor_parser \<Rightarrow> basic_cbor_parser" where
  "end_array E p = pop_state (emit E End_array (p\<lparr>nesting_depth_m := nesting_depth_m p - 1\<rparr>))"

definition end_object :: "env \<Rightarrow> basic_cbor_parser \<Rightarrow> basic_cbor_parser" where
  "end_object E p = pop_state (emit E End_object (p\<lparr>nesting_depth_m := nesting_depth_m p - 1\<rparr>))"


subsection \<open>Strings\<close>

text \<open>
  \<open>iterate_string_chunks\<close> is called with a functor that appends the bytes of one chunk
  to the caller's buffer. The buffer is the accumulator \<open>acc\<close>; the boolean of the
  result is false when the functor has failed, which is what the functor of
  \<open>read_byte_string\<close> stores in its captured \<open>more\<close>. \<open>chunks_loop\<close> is the \<open>while\<close> loop of
  the indefinite-length case.
\<close>

fun iterate_string_chunks ::
      "nat \<Rightarrow> env \<Rightarrow> byte list \<Rightarrow> basic_cbor_parser \<Rightarrow> (byte list \<times> bool \<times> basic_cbor_parser) option"
  and chunks_loop ::
      "nat \<Rightarrow> env \<Rightarrow> byte list \<Rightarrow> basic_cbor_parser \<Rightarrow> (byte list \<times> bool \<times> basic_cbor_parser) option"
where
  "iterate_string_chunks 0 E acc p = None"
| "iterate_string_chunks (Suc n) E acc p =
     (case source_peek (source_m p) of
        None \<Rightarrow> Some (acc, True, set_error unexpected_eof p)
      | Some c \<Rightarrow>
          if get_major_type c \<noteq> mt_text_string \<and> get_major_type c \<noteq> mt_byte_string then None
          else if get_additional_information_value c = 0x1F then
            chunks_loop n E acc (p\<lparr>source_m := source_ignore (source_m p) 1\<rparr>)
          else
            (let (len, p1) = get_size E p in
             if ec p1 \<noteq> None then Some (acc, True, p1)
             else
               (let (bs, s') = source_read (source_m p1) len in
                if length bs \<noteq> len
                then Some (acc @ bs, False,
                           p1\<lparr>source_m := s', ec := Some unexpected_eof, more_m := False\<rparr>)
                else Some (acc @ bs, True, p1\<lparr>source_m := s', more_m := True\<rparr>))))"
| "chunks_loop 0 E acc p = None"
| "chunks_loop (Suc n) E acc p =
     (case source_peek (source_m p) of
        None \<Rightarrow> Some (acc, True, set_error unexpected_eof p)
      | Some test \<Rightarrow>
          if test = 0xFF then Some (acc, True, p\<lparr>source_m := source_ignore (source_m p) 1\<rparr>)
          else
            (case iterate_string_chunks n E acc p of
               None \<Rightarrow> None
             | Some (acc', ok, p') \<Rightarrow>
                 if ec p' \<noteq> None then Some (acc', ok, p')
                 else chunks_loop n E acc' p'))"

definition stringref_push :: "mapped_string \<Rightarrow> basic_cbor_parser \<Rightarrow> basic_cbor_parser" where
  "stringref_push e p =
     (case stringref_map_stack_m p of
        [] \<Rightarrow> p
      | t # ts \<Rightarrow> p\<lparr>stringref_map_stack_m := (t @ [e]) # ts\<rparr>)"

text \<open>\<open>read_text_string\<close> is only called on \<open>text_buffer_\<close>, which it extends.\<close>

definition read_text_string :: "nat \<Rightarrow> env \<Rightarrow> basic_cbor_parser \<Rightarrow> basic_cbor_parser option" where
  "read_text_string n E p =
     (case source_peek (source_m p) of
        None \<Rightarrow> Some (set_error unexpected_eof p)
      | Some c \<Rightarrow>
          if get_major_type c \<noteq> mt_text_string then None
          else
            (case iterate_string_chunks n E (text_buffer_m p) p of
               None \<Rightarrow> None
             | Some (s, ok, p1) \<Rightarrow>
                 (let p2 = p1\<lparr>text_buffer_m := s\<rparr> in
                  if stringref_map_stack_m p2 \<noteq> []
                     \<and> get_additional_information_value c \<noteq> 0x1F
                     \<and> length s \<ge> min_length_for_stringref (length (hd (stringref_map_stack_m p2)))
                  then Some (stringref_push (mapped_text s) p2)
                  else Some p2)))"

text \<open>
  \<open>read_byte_string\<close> returns its local \<open>more\<close> and the vector \<open>v\<close> it has filled; the
  caller stores \<open>v\<close> where the C++ caller has passed a reference.
\<close>

definition read_byte_string ::
    "nat \<Rightarrow> env \<Rightarrow> basic_cbor_parser \<Rightarrow> (bool \<times> byte list \<times> basic_cbor_parser) option" where
  "read_byte_string n E p =
     (case source_peek (source_m p) of
        None \<Rightarrow> Some (False, [], p\<lparr>ec := Some unexpected_eof\<rparr>)
      | Some c \<Rightarrow>
          if get_major_type c \<noteq> mt_byte_string then None
          else if get_additional_information_value c = 0x1F then
            (case iterate_string_chunks n E [] p of
               None \<Rightarrow> None
             | Some (v, ok, p1) \<Rightarrow> Some (ok, v, p1))
          else
            (let (len, p1) = get_size E p in
             if ec p1 \<noteq> None then Some (False, [], p1)
             else
               (let (v, s') = source_read (source_m p1) len in
                if length v \<noteq> len
                then Some (False, v, p1\<lparr>source_m := s', ec := Some unexpected_eof\<rparr>)
                else
                  (let p2 = p1\<lparr>source_m := s'\<rparr> in
                   if stringref_map_stack_m p2 \<noteq> []
                      \<and> length v \<ge> min_length_for_stringref (length (hd (stringref_map_stack_m p2)))
                   then Some (True, v, stringref_push (mapped_bytes v) p2)
                   else Some (True, v, p2)))))"

subsection \<open>Byte strings and typed arrays\<close>

text \<open>
  Modelled from the spec: the masks of the typed-array tags (\<open>cbor_detail.hpp\<close> is not
  part of the sources at hand): bit 4 is \<open>f\<close>, bit 2 is \<open>e\<close>, bits 0 and 1 are \<open>ll\<close>.
\<close>

definition get_typed_array_endianness_little :: "byte \<Rightarrow> bool" where
  "get_typed_array_endianness_little tag = (drop_bit 2 (tag AND 0x04) \<noteq> 0)"

definition get_typed_array_bytes_per_element :: "byte \<Rightarrow> nat" where
  "get_typed_array_bytes_per_element tag =
     (let f = drop_bit 4 (tag AND 0x10); ll = tag AND 0x03
      in 2 ^ (unat f + unat ll))"

text \<open>
  The elements handed to the visitor: \<open>size() / bytes_per_elem\<close> of them, each read from
  its bytes in the byte order that the tag names (the host's order after the swap).
\<close>

definition typed_elements :: "byte \<Rightarrow> byte list \<Rightarrow> nat list" where
  "typed_elements tag v =
     (let bpe = get_typed_array_bytes_per_element tag;
          little = get_typed_array_endianness_little tag
      in map (\<lambda>i. let chunk = take bpe (drop (i * bpe) v)
                   in unat (big_to_native (if little then rev chunk else chunk)))
             [0..<length v div bpe])"

definition tagged_byte_string_event :: "env \<Rightarrow> 64 word \<Rightarrow> byte list \<Rightarrow> event" where
  "tagged_byte_string_event E t v =
     (if t = 0x2 then String_value (bignum_dump E 1 v) tag_bigint
      else if t = 0x3 then String_value (bignum_dump E (- 1) v) tag_bigint
      else if t = 0x15 then Byte_string_value v tag_base64url
      else if t = 0x16 then Byte_string_value v tag_base64
      else if t = 0x17 then Byte_string_value v tag_base16
      else if t = 0x40 then Typed_array el_uint8 (map unat v) tag_none
      else if t = 0x44 then Typed_array el_uint8 (map unat v) tag_clamped
      else if t = 0x41 \<or> t = 0x45 then Typed_array el_uint16 (typed_elements (ucast t) v) tag_none
      else if t = 0x42 \<or> t = 0x46 then Typed_array el_uint32 (typed_elements (ucast t) v) tag_none
      else if t = 0x43 \<or> t = 0x47 then Typed_array el_uint64 (typed_elements (ucast t) v) tag_none
      else if t = 0x48 then Typed_array el_int8 (map unat v) tag_none
      else if t = 0x49 \<or> t = 0x4D then Typed_array el_int16 (typed_elements (ucast t) v) tag_none
      else if t = 0x4A \<or> t = 0x4E then Typed_array el_int32 (typed_elements (ucast t) v) tag_none
      else if t = 0x4B \<or> t = 0x4F then Typed_array el_int64 (typed_elements (ucast t) v) tag_none
      else if t = 0x50 \<or> t = 0x54 then Typed_array el_half (typed_elements (ucast t) v) tag_none
      else if t = 0x51 \<or> t = 0x55 then Typed_array el_float (typed_elements (ucast t) v) tag_none
      else if t = 0x52 \<or> t = 0x56 then Typed_array el_double (typed_elements (ucast t) v) tag_none
      else Byte_string_value v tag_none)"

text \<open>The member that a case of \<open>write_byte_string\<close> reads the bytes into.\<close>

definition store_read :: "64 word \<Rightarrow> byte list \<Rightarrow> basic_cbor_parser \<Rightarrow> basic_cbor_parser" where
  "store_read t v p =
     (if t = 0x2 \<or> t = 0x3 then p
      else if 0x40 \<le> t \<and> t \<le> 0x56 \<and> t \<in> set item_tags then p\<lparr>typed_array_m := v\<rparr>
      else p\<lparr>bytes_buffer_m := v\<rparr>)"

definition store_text :: "env \<Rightarrow> 64 word \<Rightarrow> byte list \<Rightarrow> basic_cbor_parser \<Rightarrow> basic_cbor_parser" where
  "store_text E t v p =
     (if t = 0x2 then p\<lparr>text_buffer_m := bignum_dump E 1 v\<rparr>
      else if t = 0x3 then p\<lparr>text_buffer_m := bignum_dump E (- 1) v\<rparr>
      else p)"

text \<open>
  The \<open>Read\<close> functor: \<open>Some b\<close> is \<open>read_byte_string_from_buffer\<close> on the stored bytes
  \<open>b\<close>, \<open>None\<close> is \<open>read_byte_string_from_source\<close>.
\<close>

definition read_functor ::
    "nat \<Rightarrow> env \<Rightarrow> byte list option \<Rightarrow> basic_cbor_parser \<Rightarrow> (byte list \<times> basic_cbor_parser) option" where
  "read_functor n E rd p =
     (case rd of
        Some b \<Rightarrow> Some (b, p)
      | None \<Rightarrow> map_option (\<lambda>(ok, v, p'). (v, p')) (read_byte_string n E p))"

text \<open>
  Every case of \<open>write_byte_string\<close> reads, returns with \<open>more_ = false\<close> on an error,
  and calls the visitor; the cases differ in the buffer and in the callback.
\<close>

definition write_byte_string ::
    "nat \<Rightarrow> env \<Rightarrow> byte list option \<Rightarrow> basic_cbor_parser \<Rightarrow> basic_cbor_parser option" where
  "write_byte_string n E rd p =
     (case read_functor n E rd p of
        None \<Rightarrow> None
      | Some (v, p1) \<Rightarrow>
          if item_tag p then
            (let p2 = store_read (item_tag_m p) v p1 in
             if ec p2 \<noteq> None then Some (p2\<lparr>more_m := False\<rparr>)
             else Some ((emit E (tagged_byte_string_event E (item_tag_m p) v)
                           (store_text E (item_tag_m p) v p2))\<lparr>item_tag := False\<rparr>))
          else
            (let p2 = p1\<lparr>bytes_buffer_m := v\<rparr> in
             if ec p2 \<noteq> None then Some p2
             else Some (emit E (Byte_string_value v tag_none) p2)))"


subsection \<open>Decimal fractions and bigfloats\<close>

text \<open>
  The first \<open>switch\<close> of \<open>read_array_as_decimal_string\<close> and of
  \<open>read_array_as_hexfloat_string\<close>: the exponent. The caller returns when \<open>ec\<close> is set.
\<close>

definition read_exponent ::
    "env \<Rightarrow> cbor_errc \<Rightarrow> byte \<Rightarrow> basic_cbor_parser \<Rightarrow> 64 word \<times> basic_cbor_parser" where
  "read_exponent E err c p =
     (case get_major_type c of
        mt_unsigned_integer \<Rightarrow> get_uint64_value E p
      | mt_negative_integer \<Rightarrow> get_int64_value E p
      | _ \<Rightarrow> (0, set_error err p))"

text \<open>
  The second \<open>switch\<close> of \<open>read_array_as_decimal_string\<close>: the mantissa, as the local
  string \<open>s\<close>. The caller returns when \<open>ec\<close> is set.
\<close>

definition decimal_mantissa ::
    "nat \<Rightarrow> env \<Rightarrow> basic_cbor_parser \<Rightarrow> (string_type \<times> basic_cbor_parser) option" where
  "decimal_mantissa n E p =
     (case get_major_type (peek_byte (source_m p)) of
        mt_unsigned_integer \<Rightarrow>
          (let (val, p1) = get_uint64_value E p in
           Some (if ec p1 \<noteq> None then [] else write_integer E (uint val), p1))
      | mt_negative_integer \<Rightarrow>
          (let (val, p1) = get_int64_value E p in
           Some (if ec p1 \<noteq> None then [] else write_integer E (sint val), p1))
      | mt_semantic_tag \<Rightarrow>
          (case source_get (source_m p) of
             (None, s) \<Rightarrow> Some ([], set_error unexpected_eof (p\<lparr>source_m := s\<rparr>))
           | (Some c, s) \<Rightarrow>
               (let tag = get_additional_information_value c; p1 = p\<lparr>source_m := s\<rparr> in
                case source_peek s of
                  None \<Rightarrow> Some ([], set_error unexpected_eof p1)
                | Some c' \<Rightarrow>
                    if get_major_type c' = mt_byte_string then
                      (case read_byte_string n E p1 of
                         None \<Rightarrow> None
                       | Some (ok, v, p2) \<Rightarrow>
                           if ec p2 \<noteq> None then Some ([], p2\<lparr>more_m := False\<rparr>)
                           else Some (if tag = 2 then bignum_dump E 1 v
                                      else if tag = 3 then bignum_dump E (- 1) v
                                      else [], p2))
                    else Some ([], p1)))
      | _ \<Rightarrow> Some ([], set_error invalid_bigdec p))"

text \<open>
  \<open>(int)exponent\<close> keeps the low 32 bits. The result is appended to \<open>text_buffer_\<close>, the
  string the only caller passes.
\<close>

definition read_array_as_decimal_string ::
    "nat \<Rightarrow> env \<Rightarrow> basic_cbor_parser \<Rightarrow> basic_cbor_parser option" where
  "read_array_as_decimal_string n E p =
     (case source_get (source_m p) of
        (None, s) \<Rightarrow> Some (set_error unexpected_eof (p\<lparr>source_m := s\<rparr>))
      | (Some c, s) \<Rightarrow>
          if get_major_type c \<noteq> mt_array \<or> get_additional_information_value c \<noteq> 2 then None
          else
            (case source_peek s of
               None \<Rightarrow> Some (set_error unexpected_eof (p\<lparr>source_m := s\<rparr>))
             | Some c1 \<Rightarrow>
                 (let (exponent, p1) = read_exponent E invalid_bigdec c1 (p\<lparr>source_m := s\<rparr>) in
                  if ec p1 \<noteq> None then Some p1
                  else
                    (case decimal_mantissa n E p1 of
                       None \<Rightarrow> None
                     | Some (s, p2) \<Rightarrow>
                         if ec p2 \<noteq> None then Some p2
                         else if s = [] then Some p2
                         else if hd s = of_char CHR ''-''
                         then Some (p2\<lparr>text_buffer_m := text_buffer_m p2 @ ascii ''-''
                                        @ prettify_string E (tl s) (sint (ucast exponent :: 32 word))\<rparr>)
                         else Some (p2\<lparr>text_buffer_m := text_buffer_m p2
                                        @ prettify_string E s (sint (ucast exponent :: 32 word))\<rparr>)))))"

definition append_text :: "string_type \<Rightarrow> basic_cbor_parser \<Rightarrow> basic_cbor_parser" where
  "append_text t p = p\<lparr>text_buffer_m := text_buffer_m p @ t\<rparr>"

text \<open>
  The second \<open>switch\<close> of \<open>read_array_as_hexfloat_string\<close>: the mantissa, appended to the
  string \<open>s\<close>, which is \<open>text_buffer_\<close>. The boolean says that the function has returned.
  For tag 3 the text of \<open>dump_hex_string\<close> follows \<open>-0\<close> and \<open>s[2]\<close> is overwritten.
\<close>

definition hexfloat_mantissa ::
    "nat \<Rightarrow> env \<Rightarrow> basic_cbor_parser \<Rightarrow> (bool \<times> basic_cbor_parser) option" where
  "hexfloat_mantissa n E p =
     (case get_major_type (peek_byte (source_m p)) of
        mt_unsigned_integer \<Rightarrow>
          (let (val, p1) = get_uint64_value E p in
           if ec p1 \<noteq> None then Some (True, p1)
           else Some (False, append_text (ascii ''0x'' @ uinteger_to_hex_string E val) p1))
      | mt_negative_integer \<Rightarrow>
          (let (val, p1) = get_int64_value E p in
           if ec p1 \<noteq> None then Some (True, p1)
           else Some (False, append_text (ascii ''-0x'' @ uinteger_to_hex_string E (- val)) p1))
      | mt_semantic_tag \<Rightarrow>
          (case source_get (source_m p) of
             (None, s) \<Rightarrow> Some (True, set_error unexpected_eof (p\<lparr>source_m := s\<rparr>))
           | (Some c, s) \<Rightarrow>
               (let tag = get_additional_information_value c; p1 = p\<lparr>source_m := s\<rparr> in
                case source_peek s of
                  None \<Rightarrow> Some (True, set_error unexpected_eof p1)
                | Some c' \<Rightarrow>
                    if get_major_type c' = mt_byte_string then
                      (case read_byte_string n E p1 of
                         None \<Rightarrow> None
                       | Some (ok, v, p2) \<Rightarrow>
                           (let p3 = p2\<lparr>more_m := ok\<rparr> in
                            if \<not> ok then Some (True, p3)
                            else if tag = 2 then
                              Some (False, append_text (ascii ''-0x'' @ bignum_dump_hex_string E 1 v) p3)
                            else if tag = 3 then
                              (let p4 = append_text (ascii ''-0'' @ bignum_dump_hex_string E (- 1) v) p3
                               in Some (False, p4\<lparr>text_buffer_m := (text_buffer_m p4)[2 := of_char CHR ''x'']\<rparr>))
                            else Some (False, p3)))
                    else Some (False, p1)))
      | _ \<Rightarrow> Some (True, set_error invalid_bigfloat p))"

definition read_array_as_hexfloat_string ::
    "nat \<Rightarrow> env \<Rightarrow> basic_cbor_parser \<Rightarrow> basic_cbor_parser option" where
  "read_array_as_hexfloat_string n E p =
     (case source_get (source_m p) of
        (None, s) \<Rightarrow> Some (set_error unexpected_eof (p\<lparr>source_m := s\<rparr>))
      | (Some c, s) \<Rightarrow>
          if get_major_type c \<noteq> mt_array \<or> get_additional_information_value c \<noteq> 2 then None
          else
            (case source_peek s of
               None \<Rightarrow> Some (set_error unexpected_eof (p\<lparr>source_m := s\<rparr>))
             | Some c1 \<Rightarrow>
                 (let (exponent, p1) = read_exponent E invalid_bigfloat c1 (p\<lparr>source_m := s\<rparr>) in
                  if ec p1 \<noteq> None then Some p1
                  else
                    (case hexfloat_mantissa n E p1 of
                       None \<Rightarrow> None
                     | Some (returned, p2) \<Rightarrow>
                         if returned then Some p2
                         else if 0 \<le>s exponent
                         then Some (append_text (ascii ''p'' @ uinteger_to_hex_string E exponent) p2)
                         else Some (append_text (ascii ''p-'' @ uinteger_to_hex_string E (- exponent)) p2)))))"

subsection \<open>Multi-dimensional arrays\<close>

fun read_shape_indefinite :: "nat \<Rightarrow> env \<Rightarrow> basic_cbor_parser \<Rightarrow> basic_cbor_parser option" where
  "read_shape_indefinite 0 E p = None"
| "read_shape_indefinite (Suc n) E p =
     (case source_peek (source_m p) of
        None \<Rightarrow> Some (set_error unexpected_eof p)
      | Some c \<Rightarrow>
          if c = 0xFF
          then read_shape_indefinite n E (p\<lparr>source_m := source_ignore (source_m p) 1\<rparr>)
          else
            (let (dim, p1) = get_size E p in
             if ec p1 \<noteq> None then Some p1
             else read_shape_indefinite n E (p1\<lparr>shape_m := shape_m p1 @ [dim]\<rparr>)))"

fun read_shape_definite ::
    "nat \<Rightarrow> env \<Rightarrow> nat \<Rightarrow> nat \<Rightarrow> basic_cbor_parser \<Rightarrow> basic_cbor_parser option" where
  "read_shape_definite 0 E i sz p = None"
| "read_shape_definite (Suc n) E i sz p =
     (if more_m p \<and> i < sz then
        (let (dim, p1) = get_size E p in
         if ec p1 \<noteq> None then Some p1
         else read_shape_definite n E (i + 1) sz (p1\<lparr>shape_m := shape_m p1 @ [dim]\<rparr>))
      else Some p)"

text \<open>
  In the indefinite-length case of \<open>read_shape\<close> the \<open>break\<close> after the byte \<open>0xFF\<close> leaves
  the \<open>switch\<close>, not the \<open>while (true)\<close>: the loop goes on.
\<close>

definition read_shape :: "nat \<Rightarrow> env \<Rightarrow> byte \<Rightarrow> basic_cbor_parser \<Rightarrow> basic_cbor_parser option" where
  "read_shape n E info p =
     (let p0 = p\<lparr>shape_m := []\<rparr> in
      if info = 0x1F then read_shape_indefinite n E p0
      else
        (let (sz, p1) = get_size E p0 in
         if ec p1 \<noteq> None then Some p1
         else read_shape_definite n E 0 sz p1))"

definition produce_begin_multi_dim ::
    "nat \<Rightarrow> env \<Rightarrow> semantic_tag \<Rightarrow> basic_cbor_parser \<Rightarrow> basic_cbor_parser option" where
  "produce_begin_multi_dim n E tag p =
     (case source_get (source_m p) of
        (None, s) \<Rightarrow> Some (set_error unexpected_eof (p\<lparr>source_m := s\<rparr>))
      | (Some c, s) \<Rightarrow>
          if get_major_type c \<noteq> mt_array then None
          else
            (case read_shape n E (get_additional_information_value c) (p\<lparr>source_m := s\<rparr>) of
               None \<Rightarrow> None
             | Some p1 \<Rightarrow>
                 if ec p1 \<noteq> None then Some p1
                 else Some (emit E (Begin_multi_dim (shape_m p1) tag)
                              (push_state (mk_parse_state mode_multi_dim 0 False) p1))))"

definition produce_end_multi_dim :: "env \<Rightarrow> basic_cbor_parser \<Rightarrow> basic_cbor_parser" where
  "produce_end_multi_dim E p =
     (let p1 = emit E End_multi_dim p in p1\<lparr>state_stack_m := tl (state_stack_m p1)\<rparr>)"


subsection \<open>Items\<close>

text \<open>
  \<open>read_item\<close>, one definition for each case of its \<open>switch\<close> on the major type. The
  boolean of a result says that the case has executed \<open>return\<close>; otherwise \<open>read_item\<close>
  goes on to the statement after the \<open>switch\<close>.
\<close>

definition timestamp_tag :: "basic_cbor_parser \<Rightarrow> semantic_tag" where
  "timestamp_tag p = (if item_tag p \<and> item_tag_m p = 1 then tag_timestamp else tag_none)"

definition read_item_unsigned_integer ::
    "nat \<Rightarrow> env \<Rightarrow> basic_cbor_parser \<Rightarrow> (bool \<times> basic_cbor_parser) option" where
  "read_item_unsigned_integer n E p =
     (let (val, p1) = get_uint64_value E p in
      if ec p1 \<noteq> None then Some (True, p1)
      else if stringref_map_stack_m p1 \<noteq> [] \<and> stringref_tag p1 then
        (let p2 = p1\<lparr>stringref_tag := False\<rparr>;
             table = hd (stringref_map_stack_m p2)
         in if unat val \<ge> length table then Some (True, set_error stringref_too_large p2)
            else
              (let index = (ucast val :: 64 word) in
               if index \<noteq> val then Some (True, set_error number_too_large p2)
               else
                 (case table ! unat index of
                    mapped_text str \<Rightarrow>
                      (let p3 = handle_string E str p2 in Some (ec p3 \<noteq> None, p3))
                  | mapped_bytes bytes \<Rightarrow>
                      (case write_byte_string n E (Some bytes) p2 of
                         None \<Rightarrow> None
                       | Some p3 \<Rightarrow> Some (ec p3 \<noteq> None, p3)))))
      else Some (False, emit E (Uint64_value val (timestamp_tag p1)) (p1\<lparr>item_tag := False\<rparr>)))"

definition read_item_negative_integer ::
    "env \<Rightarrow> basic_cbor_parser \<Rightarrow> bool \<times> basic_cbor_parser" where
  "read_item_negative_integer E p =
     (let (val, p1) = get_int64_value E p in
      if ec p1 \<noteq> None then (True, p1)
      else (False, emit E (Int64_value val (timestamp_tag p1)) (p1\<lparr>item_tag := False\<rparr>)))"

definition read_item_text_string ::
    "nat \<Rightarrow> env \<Rightarrow> basic_cbor_parser \<Rightarrow> (bool \<times> basic_cbor_parser) option" where
  "read_item_text_string n E p =
     (case read_text_string n E (p\<lparr>text_buffer_m := []\<rparr>) of
        None \<Rightarrow> None
      | Some p1 \<Rightarrow>
          if ec p1 \<noteq> None then Some (True, p1)
          else if \<not> validate E (text_buffer_m p1)
          then Some (True, set_error invalid_utf8_text_string p1)
          else (let p2 = handle_string E (text_buffer_m p1) p1 in Some (ec p2 \<noteq> None, p2)))"

definition ignore1 :: "basic_cbor_parser \<Rightarrow> basic_cbor_parser" where
  "ignore1 p = p\<lparr>source_m := source_ignore (source_m p) 1\<rparr>"

definition read_item_simple ::
    "env \<Rightarrow> byte \<Rightarrow> basic_cbor_parser \<Rightarrow> bool \<times> basic_cbor_parser" where
  "read_item_simple E info p =
     (if info = 0x14 then (False, ignore1 (emit E (Bool_value False tag_none) p))
      else if info = 0x15 then (False, ignore1 (emit E (Bool_value True tag_none) p))
      else if info = 0x16 then (False, ignore1 (emit E (Null_value tag_none) p))
      else if info = 0x17 then (False, ignore1 (emit E (Null_value tag_undefined) p))
      else if info = 0x19 then
        (let (val, p1) = get_uint64_value E p in
         if ec p1 \<noteq> None then (True, p1)
         else (False, emit E (Half_value (ucast val) tag_none) p1))
      else if info = 0x1A \<or> info = 0x1B then
        (let (val, p1) = get_double E p in
         if ec p1 \<noteq> None then (True, p1)
         else (False, emit E (Double_value val (timestamp_tag p1)) (p1\<lparr>item_tag := False\<rparr>)))
      else (True, set_error unknown_type p))"

definition read_item_array ::
    "nat \<Rightarrow> env \<Rightarrow> byte \<Rightarrow> basic_cbor_parser \<Rightarrow> (bool \<times> basic_cbor_parser) option" where
  "read_item_array n E info p =
     (if item_tag p then
        (if item_tag_m p = 0x04 then
           (case read_array_as_decimal_string n E (p\<lparr>text_buffer_m := []\<rparr>) of
              None \<Rightarrow> None
            | Some p1 \<Rightarrow>
                if ec p1 \<noteq> None then Some (True, p1)
                else Some (False, (emit E (String_value (text_buffer_m p1) tag_bigdec) p1)
                                    \<lparr>item_tag := False\<rparr>))
         else if item_tag_m p = 0x05 then
           (case read_array_as_hexfloat_string n E (p\<lparr>text_buffer_m := []\<rparr>) of
              None \<Rightarrow> None
            | Some p1 \<Rightarrow>
                if ec p1 \<noteq> None then Some (True, p1)
                else Some (False, (emit E (String_value (text_buffer_m p1) tag_bigfloat) p1)
                                    \<lparr>item_tag := False\<rparr>))
         else if item_tag_m p = 40 then
           map_option (\<lambda>p1. (False, p1\<lparr>item_tag := False\<rparr>))
             (produce_begin_multi_dim n E tag_multi_dim_row_major p)
         else if item_tag_m p = 1040 then
           map_option (\<lambda>p1. (False, p1\<lparr>item_tag := False\<rparr>))
             (produce_begin_multi_dim n E tag_multi_dim_column_major p)
         else Some (False, (begin_array E info p)\<lparr>item_tag := False\<rparr>))
      else Some (False, begin_array E info p))"

definition read_item :: "nat \<Rightarrow> env \<Rightarrow> basic_cbor_parser \<Rightarrow> basic_cbor_parser option" where
  "read_item n E p =
     (case read_tags n E p of
        None \<Rightarrow> None
      | Some p1 \<Rightarrow>
          if ec p1 \<noteq> None then Some p1
          else
            (case source_peek (source_m p1) of
               None \<Rightarrow> Some (set_error unexpected_eof p1)
             | Some c \<Rightarrow>
                 (let info = get_additional_information_value c;
                      r = (case get_major_type c of
                             mt_unsigned_integer \<Rightarrow> read_item_unsigned_integer n E p1
                           | mt_negative_integer \<Rightarrow> Some (read_item_negative_integer E p1)
                           | mt_byte_string \<Rightarrow>
                               (case write_byte_string n E None p1 of
                                  None \<Rightarrow> None
                                | Some p2 \<Rightarrow> Some (ec p2 \<noteq> None, p2))
                           | mt_text_string \<Rightarrow> read_item_text_string n E p1
                           | mt_semantic_tag \<Rightarrow> None
                           | mt_simple \<Rightarrow> Some (read_item_simple E info p1)
                           | mt_array \<Rightarrow> read_item_array n E info p1
                           | mt_map \<Rightarrow> Some (False, begin_object E info p1))
                  in case r of
                       None \<Rightarrow> None
                     | Some (returned, p2) \<Rightarrow>
                         if returned then Some p2 else Some (p2\<lparr>item_tag := False\<rparr>))))"

subsection \<open>Map keys\<close>

text \<open>
  Modelled from the spec: the default \<open>max_nesting_depth\<close> of \<open>cbor_decode_options\<close>
  (\<open>cbor_options.hpp\<close> is not part of the sources at hand) is 1024.
\<close>

definition default_max_nesting_depth :: int where
  "default_max_nesting_depth = 1024"

text \<open>The visitor of the nested reader is a \<open>json_string_encoder\<close>, which never stops.\<close>

definition encoder_env :: "env \<Rightarrow> env" where
  "encoder_env E = E\<lparr>visit := (\<lambda>evs e. True)\<rparr>"

definition read_name_stringref :: "env \<Rightarrow> basic_cbor_parser \<Rightarrow> basic_cbor_parser" where
  "read_name_stringref E p =
     (let (ref, p1) = get_uint64_value E (p\<lparr>stringref_tag := False\<rparr>) in
      if ec p1 \<noteq> None then p1
      else
        (let table = hd (stringref_map_stack_m p1) in
         if unat ref \<ge> length table then set_error stringref_too_large p1
         else
           (let index = (ucast ref :: 64 word) in
            if index \<noteq> ref then set_error number_too_large p1
            else
              (case table ! unat index of
                 mapped_text str \<Rightarrow> emit E (Key str) p1
               | mapped_bytes bytes \<Rightarrow>
                   (let t = encode_base64url E bytes
                    in emit E (Key t) (p1\<lparr>text_buffer_m := t\<rparr>))))))"

text \<open>
  The default case of \<open>read_name\<close>: a key of any other type is read by a second parser
  on the same source and delivered as its JSON text. \<open>nested\<close> is \<open>parse\<close> of that
  parser with the encoder as visitor. When the nested parse fails the source is not
  moved back.
\<close>

definition read_name_default ::
    "(basic_cbor_parser \<Rightarrow> basic_cbor_parser option) \<Rightarrow> env \<Rightarrow> basic_cbor_parser
       \<Rightarrow> basic_cbor_parser option" where
  "read_name_default nested E p =
     (case nested (make_parser (source_m p) default_max_nesting_depth) of
        None \<Rightarrow> None
      | Some reader \<Rightarrow>
          (let t = json_string_encoder E (events reader);
               p1 = p\<lparr>text_buffer_m := t\<rparr>
           in if ec reader \<noteq> None then Some (p1\<lparr>ec := ec reader, more_m := False\<rparr>)
              else
                (let p2 = p1\<lparr>source_m := source_m reader\<rparr> in
                 if \<not> validate E t then Some (set_error invalid_utf8_text_string p2)
                 else Some (emit E (Key t) p2))))"

definition read_name ::
    "(basic_cbor_parser \<Rightarrow> basic_cbor_parser option) \<Rightarrow> nat \<Rightarrow> env \<Rightarrow> basic_cbor_parser
       \<Rightarrow> basic_cbor_parser option" where
  "read_name nested n E p =
     (case read_tags n E p of
        None \<Rightarrow> None
      | Some p1 \<Rightarrow>
          if ec p1 \<noteq> None then Some p1
          else
            (case source_peek (source_m p1) of
               None \<Rightarrow> Some (set_error unexpected_eof p1)
             | Some c \<Rightarrow>
                 (case get_major_type c of
                    mt_text_string \<Rightarrow>
                      (case read_text_string n E (p1\<lparr>text_buffer_m := []\<rparr>) of
                         None \<Rightarrow> None
                       | Some p2 \<Rightarrow>
                           if ec p2 \<noteq> None then Some p2
                           else if \<not> validate E (text_buffer_m p2)
                           then Some (set_error invalid_utf8_text_string p2)
                           else Some (emit E (Key (text_buffer_m p2)) p2))
                  | mt_byte_string \<Rightarrow>
                      (case read_byte_string n E p1 of
                         None \<Rightarrow> None
                       | Some (ok, v, p2) \<Rightarrow>
                           (let p3 = p2\<lparr>bytes_buffer_m := v, more_m := ok\<rparr> in
                            if \<not> ok then Some p3
                            else
                              (let t = encode_base64url E v
                               in Some (emit E (Key t) (p3\<lparr>text_buffer_m := t\<rparr>)))))
                  | mt_unsigned_integer \<Rightarrow>
                      if stringref_map_stack_m p1 \<noteq> [] \<and> stringref_tag p1
                      then Some (read_name_stringref E p1)
                      else read_name_default nested E p1
                  | _ \<Rightarrow> read_name_default nested E p1)))"

subsection \<open>The driver\<close>

definition set_back :: "parse_state \<Rightarrow> basic_cbor_parser \<Rightarrow> basic_cbor_parser" where
  "set_back f p = p\<lparr>state_stack_m := f # tl (state_stack_m p)\<rparr>"

definition set_mode :: "parse_mode \<Rightarrow> basic_cbor_parser \<Rightarrow> basic_cbor_parser" where
  "set_mode m p =
     (case state_stack_m p of
        [] \<Rightarrow> p
      | back # rest \<Rightarrow> p\<lparr>state_stack_m := back\<lparr>mode := m\<rparr> # rest\<rparr>)"

text \<open>\<open>if (ec) return;\<close> after a call: the boolean says that \<open>parse\<close> returns.\<close>

definition return_if_ec :: "basic_cbor_parser option \<Rightarrow> (bool \<times> basic_cbor_parser) option" where
  "return_if_ec r = map_option (\<lambda>p. (ec p \<noteq> None, p)) r"

text \<open>
  One round of the \<open>while\<close> loop of \<open>parse\<close>. Reading \<open>back()\<close> of an empty stack and a
  failed \<open>JSONCONS_ASSERT\<close> give \<open>None\<close>.
\<close>

definition parse_step ::
    "(basic_cbor_parser \<Rightarrow> basic_cbor_parser option) \<Rightarrow> nat \<Rightarrow> env \<Rightarrow> basic_cbor_parser
       \<Rightarrow> (bool \<times> basic_cbor_parser) option" where
  "parse_step nested n E p =
     (case state_stack_m p of
        [] \<Rightarrow> None
      | back # rest \<Rightarrow>
          (case mode back of
             mode_multi_dim \<Rightarrow>
               if index_f back = 0
               then return_if_ec (read_item n E (set_back (back\<lparr>index_f := index_f back + 1\<rparr>) p))
               else Some (False, produce_end_multi_dim E p)
           | mode_array \<Rightarrow>
               if index_f back < length_f back
               then return_if_ec (read_item n E (set_back (back\<lparr>index_f := index_f back + 1\<rparr>) p))
               else Some (False, end_array E p)
           | mode_indefinite_array \<Rightarrow>
               (case source_peek (source_m p) of
                  None \<Rightarrow> Some (True, set_error unexpected_eof p)
                | Some c \<Rightarrow>
                    if c = 0xFF then return_if_ec (Some (end_array E (ignore1 p)))
                    else return_if_ec (read_item n E p))
           | mode_map_key \<Rightarrow>
               if index_f back < length_f back then
                 (case read_name nested n E (set_back (back\<lparr>index_f := index_f back + 1\<rparr>) p) of
                    None \<Rightarrow> None
                  | Some p1 \<Rightarrow>
                      if ec p1 \<noteq> None then Some (True, p1)
                      else Some (False, set_mode mode_map_value p1))
               else Some (False, end_object E p)
           | mode_map_value \<Rightarrow> return_if_ec (read_item n E (set_mode mode_map_key p))
           | mode_indefinite_map_key \<Rightarrow>
               (case source_peek (source_m p) of
                  None \<Rightarrow> Some (True, set_error unexpected_eof p)
                | Some c \<Rightarrow>
                    if c = 0xFF then return_if_ec (Some (end_object E (ignore1 p)))
                    else
                      (case read_name nested n E p of
                         None \<Rightarrow> None
                       | Some p1 \<Rightarrow>
                           if ec p1 \<noteq> None then Some (True, p1)
                           else Some (False, set_mode mode_indefinite_map_value p1)))
           | mode_indefinite_map_value \<Rightarrow>
               return_if_ec (read_item n E (set_mode mode_indefinite_map_key p))
           | mode_root \<Rightarrow> return_if_ec (read_item n E (set_mode mode_before_done p))
           | mode_before_done \<Rightarrow>
               if length (state_stack_m p) \<noteq> 1 then None
               else Some (False, p\<lparr>state_stack_m := [], more_m := False, done_m := True,
                                   events := events p @ [Flush]\<rparr>)))"

text \<open>
  \<open>parse\<close>: the \<open>while (!done_ && more_)\<close> loop. The nested reader of \<open>read_name\<close> runs
  the same function with the encoder as visitor.
\<close>

fun parse :: "nat \<Rightarrow> env \<Rightarrow> basic_cbor_parser \<Rightarrow> basic_cbor_parser option" where
  "parse 0 E p = None"
| "parse (Suc n) E p =
     (if \<not> done_m p \<and> more_m p then
        (case parse_step (parse n (encoder_env E)) n E p of
           None \<Rightarrow> None
         | Some (returned, p1) \<Rightarrow> if returned then Some p1 else parse n E p1)
      else Some p)"


text \<open>A visitor that never asks the parser to stop.\<close>

definition continuing :: "env \<Rightarrow> env" where
  "continuing E = E\<lparr>visit := (\<lambda>evs e. True)\<rparr>"

section \<open>Sample collaborators\<close>

text \<open>
  Concrete collaborators for the worked examples. \<open>utf8_valid\<close> accepts the well-formed
  UTF-8 byte sequences and \<open>base64url\<close> is the unpadded URL-safe base64 encoding; the
  collaborators that no example depends on return the empty text.
\<close>

definition continuation :: "byte \<Rightarrow> bool" where
  "continuation b = (0x80 \<le> b \<and> b \<le> 0xBF)"

fun utf8_valid :: "byte list \<Rightarrow> bool" where
  "utf8_valid [] = True"
| "utf8_valid (a # bs) =
     (if a \<le> 0x7F then utf8_valid bs
      else if 0xC2 \<le> a \<and> a \<le> 0xDF then
        (case bs of
           b # r \<Rightarrow> continuation b \<and> utf8_valid r
         | _ \<Rightarrow> False)
      else if 0xE0 \<le> a \<and> a \<le> 0xEF then
        (case bs of
           b # c # r \<Rightarrow>
             continuation b \<and> continuation c
             \<and> (if a = 0xE0 then 0xA0 \<le> b else True)
             \<and> (if a = 0xED then b \<le> 0x9F else True)
             \<and> utf8_valid r
         | _ \<Rightarrow> False)
      else if 0xF0 \<le> a \<and> a \<le> 0xF4 then
        (case bs of
           b # c # d # r \<Rightarrow>
             continuation b \<and> continuation c \<and> continuation d
             \<and> (if a = 0xF0 then 0x90 \<le> b else True)
             \<and> (if a = 0xF4 then b \<le> 0x8F else True)
             \<and> utf8_valid r
         | _ \<Rightarrow> False)
      else False)"

definition base64url_alphabet :: "byte list" where
  "base64url_alphabet =
     ascii ''ABCDEFGHIJKLMNOPQRSTUVWXYZabcdefghijklmnopqrstuvwxyz0123456789-_''"

definition sextet :: "nat \<Rightarrow> byte" where
  "sextet k = base64url_alphabet ! (k mod 64)"

fun base64url :: "byte list \<Rightarrow> string_type" where
  "base64url (a # b # c # r) =
     (let k = unat a * 65536 + unat b * 256 + unat c
      in [sextet (k div 262144), sextet (k div 4096), sextet (k div 64), sextet k])
     @ base64url r"
| "base64url [a, b] =
     (let k = unat a * 1024 + unat b * 4
      in [sextet (k div 4096), sextet (k div 64), sextet k])"
| "base64url [a] = (let k = unat a * 16 in [sextet (k div 64), sextet k])"
| "base64url [] = []"

definition sample_env :: env where
  "sample_env =
     \<lparr>visit = (\<lambda>evs e. True), validate = utf8_valid, encode_base64url = base64url,
      bignum_dump = (\<lambda>signum v. []), bignum_dump_hex_string = (\<lambda>signum v. []),
      write_integer = (\<lambda>i. []), uinteger_to_hex_string = (\<lambda>w. []),
      prettify_string = (\<lambda>s e. []), json_string_encoder = (\<lambda>evs. []),
      uninit = (\<lambda>i. 0)\<rparr>"

text \<open>A visitor that asks the parser to stop at its \<open>k\<close>-th callback.\<close>

definition pausing :: "nat \<Rightarrow> env \<Rightarrow> env" where
  "pausing k E = E\<lparr>visit := (\<lambda>evs e. length evs + 1 < k)\<rparr>"

section \<open>Well-counted event sequences\<close>

text \<open>
  The spec's invariant "definite containers deliver exactly \<open>length\<close> child items before
  emitting the end-event", written as a check of an event sequence that does not look at
  the parser. The check keeps the open containers: \<open>C_array k\<close> is a definite-length array
  with \<open>k\<close> children still to come, \<open>C_map_key k\<close> a definite-length map with \<open>k\<close> pairs
  still to come that waits for a key, \<open>C_map_value k\<close> the same map waiting for the value
  of the pair just begun. \<open>child\<close> accounts for one child item in the innermost
  container, \<open>enter\<close> opens the container that an event begins, and \<open>track\<close> is the
  step for one event: \<open>end_array\<close> is only accepted when no child of the array is
  outstanding, \<open>end_object\<close> only when no pair is, and a key only where a key is due.
  \<open>tracks\<close> runs the check from the start; \<open>Some []\<close> says that the events are one
  complete item followed by \<open>flush\<close>.
\<close>

datatype ctx =
    C_top
  | C_done
  | C_array nat
  | C_indef_array
  | C_map_key nat
  | C_map_value nat
  | C_indef_map_key
  | C_indef_map_value
  | C_multi
  | C_multi_done

fun child :: "ctx list \<Rightarrow> ctx list option" where
  "child (C_top # r) = Some (C_done # r)"
| "child (C_array (Suc k) # r) = Some (C_array k # r)"
| "child (C_indef_array # r) = Some (C_indef_array # r)"
| "child (C_map_value k # r) = Some (C_map_key k # r)"
| "child (C_indef_map_value # r) = Some (C_indef_map_key # r)"
| "child (C_multi # r) = Some (C_multi_done # r)"
| "child c = None"

fun enter :: "event \<Rightarrow> ctx list \<Rightarrow> ctx list" where
  "enter (Begin_array (Some n) t) c = C_array n # c"
| "enter (Begin_array None t) c = C_indef_array # c"
| "enter (Begin_object (Some n) t) c = C_map_key n # c"
| "enter (Begin_object None t) c = C_indef_map_key # c"
| "enter (Begin_multi_dim sh t) c = C_multi # c"
| "enter e c = c"

fun track :: "ctx list \<Rightarrow> event \<Rightarrow> ctx list option" where
  "track c (Key k) =
     (case c of
        C_map_key (Suc n) # r \<Rightarrow> Some (C_map_value n # r)
      | C_indef_map_key # r \<Rightarrow> Some (C_indef_map_value # r)
      | _ \<Rightarrow> None)"
| "track c End_array =
     (case c of
        C_array 0 # r \<Rightarrow> Some r
      | C_indef_array # r \<Rightarrow> Some r
      | _ \<Rightarrow> None)"
| "track c End_object =
     (case c of
        C_map_key 0 # r \<Rightarrow> Some r
      | C_indef_map_key # r \<Rightarrow> Some r
      | _ \<Rightarrow> None)"
| "track c End_multi_dim = (case c of C_multi_done # r \<Rightarrow> Some r | _ \<Rightarrow> None)"
| "track c Flush = (case c of [C_done] \<Rightarrow> Some [] | _ \<Rightarrow> None)"
| "track c e = map_option (enter e) (child c)"

definition tracks :: "event list \<Rightarrow> ctx list option" where
  "tracks evs = foldl (\<lambda>c e. case c of None \<Rightarrow> None | Some c' \<Rightarrow> track c' e) (Some [C_top]) evs"

text \<open>
  The same invariant as a grammar of event sequences. \<open>item xs\<close>: the events \<open>xs\<close> are one
  item, that is one scalar event, or the events of a container from its begin-event to
  its end-event. \<open>items n xs\<close>: \<open>xs\<close> is \<open>n\<close> items one after the other. \<open>pairs n xs\<close>: \<open>xs\<close>
  is \<open>n\<close> times a key followed by an item. An array that declares the length \<open>n\<close> is
  an item only around \<open>items n\<close>, a map that declares \<open>n\<close> pairs only around \<open>pairs n\<close>;
  an indefinite-length container is one around any number of them.
\<close>

definition is_scalar :: "event \<Rightarrow> bool" where
  "is_scalar e =
     (case e of
        Uint64_value v t \<Rightarrow> True
      | Int64_value v t \<Rightarrow> True
      | Half_value v t \<Rightarrow> True
      | Double_value v t \<Rightarrow> True
      | Bool_value v t \<Rightarrow> True
      | Null_value t \<Rightarrow> True
      | String_value v t \<Rightarrow> True
      | Byte_string_value v t \<Rightarrow> True
      | Typed_array el v t \<Rightarrow> True
      | _ \<Rightarrow> False)"

inductive item :: "event list \<Rightarrow> bool"
  and items :: "nat \<Rightarrow> event list \<Rightarrow> bool"
  and pairs :: "nat \<Rightarrow> event list \<Rightarrow> bool"
where
  scalar: "is_scalar e \<Longrightarrow> item [e]"
| definite_array: "items n xs \<Longrightarrow> item (Begin_array (Some n) t # xs @ [End_array])"
| indefinite_array: "items n xs \<Longrightarrow> item (Begin_array None t # xs @ [End_array])"
| definite_map: "pairs n xs \<Longrightarrow> item (Begin_object (Some n) t # xs @ [End_object])"
| indefinite_map: "pairs n xs \<Longrightarrow> item (Begin_object None t # xs @ [End_object])"
| multi_dim: "item xs \<Longrightarrow> item (Begin_multi_dim sh t # xs @ [End_multi_dim])"
| no_items: "items 0 []"
| more_items: "items n xs \<Longrightarrow> item x \<Longrightarrow> items (Suc n) (xs @ x)"
| no_pairs: "pairs 0 []"
| more_pairs: "pairs n xs \<Longrightarrow> item x \<Longrightarrow> pairs (Suc n) (xs @ Key k # x)"



section \<open>Items and keys on the wire\<close>

text \<open>
  The input of an item, written as bytes. A head is its first byte \<open>c\<close> and the bytes \<open>arg\<close>
  of its argument: \<open>arg_length c\<close> is the number of argument bytes that the low five bits
  of \<open>c\<close> announce (none for the reserved values and for \<open>0x1F\<close>), and \<open>argument c arg\<close> is
  the value of the argument, big-endian. A tag on the wire is a head of major type 6 with
  all the bytes of its argument; \<open>wire_tags\<close> is the bytes of a sequence of tags.
\<close>

definition arg_length :: "byte \<Rightarrow> nat option" where
  "arg_length c =
     (let info = c AND 0x1F in
      if info \<le> 0x17 then Some 0
      else if info = 0x18 then Some 1
      else if info = 0x19 then Some 2
      else if info = 0x1A then Some 4
      else if info = 0x1B then Some 8
      else None)"

definition argument :: "byte \<Rightarrow> byte list \<Rightarrow> 64 word" where
  "argument c arg = (if c AND 0x1F \<le> 0x17 then ucast (c AND 0x1F) else big_to_native arg)"

type_synonym head = "byte \<times> byte list"

definition complete :: "head \<Rightarrow> bool" where
  "complete h = (arg_length (fst h) = Some (length (snd h)))"

definition head_wire :: "head \<Rightarrow> byte list" where
  "head_wire h = fst h # snd h"

definition is_tag :: "head \<Rightarrow> bool" where
  "is_tag h = (get_major_type (fst h) = mt_semantic_tag \<and> complete h)"

definition tag_value :: "head \<Rightarrow> 64 word" where
  "tag_value h = argument (fst h) (snd h)"

definition wire_tags :: "head list \<Rightarrow> byte list" where
  "wire_tags tags = concat (map head_wire tags)"

text \<open>
  A string on the wire is either one definite-length chunk (a head whose argument is the
  number of payload bytes, and the payload), or the indefinite-length head, definite-length
  chunks and the break byte \<open>0xFF\<close>. \<open>wire\<close> is the bytes of an encoded string and
  \<open>assembled\<close> its payload bytes in order. \<open>well_formed mt\<close> says that every head has the
  major type \<open>mt\<close>, all the bytes of its argument and as many payload bytes as the argument
  says. \<open>rounds x\<close> is the number of steps that the chunk loop takes on \<open>x\<close>; the step bound
  of a reader has to be above it.
\<close>

type_synonym chunk = "byte \<times> byte list \<times> byte list"

definition chunk_wire :: "chunk \<Rightarrow> byte list" where
  "chunk_wire ch = (case ch of (c, arg, bs) \<Rightarrow> c # arg @ bs)"

definition chunk_payload :: "chunk \<Rightarrow> byte list" where
  "chunk_payload ch = (case ch of (c, arg, bs) \<Rightarrow> bs)"

definition chunk_ok :: "cbor_major_type \<Rightarrow> chunk \<Rightarrow> bool" where
  "chunk_ok mt ch =
     (case ch of (c, arg, bs) \<Rightarrow>
        get_major_type c = mt \<and> arg_length c = Some (length arg)
        \<and> length bs = unat (argument c arg))"

datatype encoded_string = Definite chunk | Indefinite byte "chunk list"

fun wire :: "encoded_string \<Rightarrow> byte list" where
  "wire (Definite ch) = chunk_wire ch"
| "wire (Indefinite c chunks) = c # concat (map chunk_wire chunks) @ [0xFF]"

fun assembled :: "encoded_string \<Rightarrow> byte list" where
  "assembled (Definite ch) = chunk_payload ch"
| "assembled (Indefinite c chunks) = concat (map chunk_payload chunks)"

fun well_formed :: "cbor_major_type \<Rightarrow> encoded_string \<Rightarrow> bool" where
  "well_formed mt (Definite ch) = chunk_ok mt ch"
| "well_formed mt (Indefinite c chunks) =
     (get_major_type c = mt \<and> c AND 0x1F = 0x1F \<and> list_all (chunk_ok mt) chunks)"

fun rounds :: "encoded_string \<Rightarrow> nat" where
  "rounds (Definite ch) = 0"
| "rounds (Indefinite c chunks) = Suc (length chunks)"

definition is_string_type :: "cbor_major_type \<Rightarrow> bool" where
  "is_string_type mt = (mt = mt_text_string \<or> mt = mt_byte_string)"

section \<open>Pending tags and the spec's rules for tagged strings\<close>

text \<open>
  The tags in front of an item, as values \<open>vals\<close> in the order read, starting in the
  state \<open>p\<close>: \<open>stringref_pending\<close> says that tag 25 is pending when the item is read, and
  \<open>pending_item_tag\<close> is the tag that the parser keeps for the item, which is the last of
  \<open>vals\<close> that it recognises, or else the one that was pending in \<open>p\<close>.
\<close>

definition stringref_pending :: "basic_cbor_parser \<Rightarrow> 64 word list \<Rightarrow> bool" where
  "stringref_pending p vals = (stringref_tag p \<or> 25 \<in> set vals)"

definition pending_item_tag :: "basic_cbor_parser \<Rightarrow> 64 word list \<Rightarrow> 64 word option" where
  "pending_item_tag p vals =
     (case filter (\<lambda>v. v \<in> set item_tags) vals of
        [] \<Rightarrow> (if item_tag p then Some (item_tag_m p) else None)
      | v # vs \<Rightarrow> Some (last (v # vs)))"





section \<open>Where the driver reads an item or a key\<close>

text \<open>
  \<open>item_due p\<close>: the loop of \<open>parse\<close> is running and its next round calls \<open>read_item\<close>: at
  the root, in an array with children outstanding, in an indefinite-length array whose
  next byte is not the break byte, at the value of a map entry, and at the content of a
  multi-dimensional array. \<open>key_due p\<close>: the next round calls \<open>read_name\<close>: in a map with
  pairs outstanding, and in an indefinite-length map whose next byte is not the break byte.
\<close>

definition item_due :: "basic_cbor_parser \<Rightarrow> bool" where
  "item_due p \<longleftrightarrow>
     \<not> done_m p \<and> more_m p \<and>
     (case state_stack_m p of
        [] \<Rightarrow> False
      | back # rest \<Rightarrow>
          (case mode back of
             mode_root \<Rightarrow> True
           | mode_array \<Rightarrow> index_f back < length_f back
           | mode_indefinite_array \<Rightarrow>
               source_peek (source_m p) \<noteq> None \<and> source_peek (source_m p) \<noteq> Some 0xFF
           | mode_map_value \<Rightarrow> True
           | mode_indefinite_map_value \<Rightarrow> True
           | mode_multi_dim \<Rightarrow> index_f back = 0
           | _ \<Rightarrow> False))"

definition key_due :: "basic_cbor_parser \<Rightarrow> bool" where
  "key_due p \<longleftrightarrow>
     \<not> done_m p \<and> more_m p \<and>
     (case state_stack_m p of
        [] \<Rightarrow> False
      | back # rest \<Rightarrow>
          (case mode back of
             mode_map_key \<Rightarrow> index_f back < length_f back
           | mode_indefinite_map_key \<Rightarrow>
               source_peek (source_m p) \<noteq> None \<and> source_peek (source_m p) \<noteq> Some 0xFF
           | _ \<Rightarrow> False))"

section \<open>Relations between parser states\<close>

text \<open>
  \<open>quiet p q\<close>: from \<open>p\<close> to \<open>q\<close> no callback was made and the frames are the same.
  \<open>item_delivered p q\<close>: exactly one callback was made, it begins or is an item, and
  the frames have changed as that event says. \<open>key_delivered p q\<close>: exactly one \<open>key\<close>
  callback. \<open>abs_frame\<close> reads a frame of the parser as an open container of the check
  above, and \<open>inv\<close> is the invariant of the loop of \<open>parse\<close>.
\<close>

definition quiet :: "basic_cbor_parser \<Rightarrow> basic_cbor_parser \<Rightarrow> bool" where
  "quiet p q \<longleftrightarrow>
     events q = events p \<and> state_stack_m q = state_stack_m p \<and> done_m q = done_m p"

definition chunk_post ::
    "basic_cbor_parser \<Rightarrow> (byte list \<times> bool \<times> basic_cbor_parser) option \<Rightarrow> bool" where
  "chunk_post p r \<longleftrightarrow>
     (case r of None \<Rightarrow> True | Some (acc, ok, q) \<Rightarrow> quiet p q \<and> (\<not> ok \<longrightarrow> ec q \<noteq> None))"

definition is_item :: "event \<Rightarrow> bool" where
  "is_item e = (case e of Key k \<Rightarrow> False | End_array \<Rightarrow> False | End_object \<Rightarrow> False
                 | End_multi_dim \<Rightarrow> False | Flush \<Rightarrow> False | _ \<Rightarrow> True)"

definition abs_frame :: "parse_state \<Rightarrow> ctx" where
  "abs_frame f =
     (case mode f of
        mode_root \<Rightarrow> C_top
      | mode_before_done \<Rightarrow> C_done
      | mode_array \<Rightarrow> C_array (length_f f - index_f f)
      | mode_indefinite_array \<Rightarrow> C_indef_array
      | mode_map_key \<Rightarrow> C_map_key (length_f f - index_f f)
      | mode_map_value \<Rightarrow> C_map_value (length_f f - index_f f)
      | mode_indefinite_map_key \<Rightarrow> C_indef_map_key
      | mode_indefinite_map_value \<Rightarrow> C_indef_map_value
      | mode_multi_dim \<Rightarrow> (if index_f f = 0 then C_multi else C_multi_done))"

definition abs_stack :: "basic_cbor_parser \<Rightarrow> ctx list" where
  "abs_stack p = map abs_frame (state_stack_m p)"

definition item_delivered :: "basic_cbor_parser \<Rightarrow> basic_cbor_parser \<Rightarrow> bool" where
  "item_delivered p q \<longleftrightarrow>
     (\<exists>e. events q = events p @ [e] \<and> is_item e \<and> done_m q = done_m p
          \<and> abs_stack q = enter e (abs_stack p))"

definition key_delivered :: "basic_cbor_parser \<Rightarrow> basic_cbor_parser \<Rightarrow> bool" where
  "key_delivered p q \<longleftrightarrow>
     (\<exists>k. events q = events p @ [Key k] \<and> state_stack_m q = state_stack_m p
          \<and> done_m q = done_m p)"

definition inv :: "basic_cbor_parser \<Rightarrow> bool" where
  "inv p \<longleftrightarrow>
     tracks (events p) = Some (abs_stack p)
     \<and> (done_m p \<longrightarrow> state_stack_m p = [])
     \<and> (item_tag p \<longrightarrow>
          (\<exists>b rest. state_stack_m p = b # rest
             \<and> (mode b = mode_map_value \<or> mode b = mode_indefinite_map_value)))"

text \<open>
  \<open>at bs p\<close> is \<open>p\<close> with \<open>bs\<close> as the input that remains, and \<open>tagged vals p\<close> is \<open>p\<close> after
  \<open>read_tags\<close> has recorded the tags \<open>vals\<close>.
\<close>

definition at :: "byte list \<Rightarrow> basic_cbor_parser \<Rightarrow> basic_cbor_parser" where
  "at bs p = p\<lparr>source_m := (source_m p)\<lparr>data := bs\<rparr>\<rparr>"

definition tagged :: "64 word list \<Rightarrow> basic_cbor_parser \<Rightarrow> basic_cbor_parser" where
  "tagged vals p = foldl (\<lambda>q v. record_tag v q) p vals"

section \<open>Running the parser on concrete inputs\<close>

lemmas source_defs = mk_source_def source_peek_def source_get_def source_read_def
  source_ignore_def peek_byte_def read_buf_def
lemmas head_defs = get_major_type_def major_type_of_def get_additional_information_value_def
lemmas parser_defs = make_parser_def mk_parse_state_def set_error_def emit_def push_state_def
  pop_state_def set_back_def set_mode_def ignore1_def return_if_ec_def reset_def stopped_def
  default_max_nesting_depth_def append_text_def stringref_push_def continuing_def
lemmas reader_defs = read_item_def read_item_unsigned_integer_def
  read_item_negative_integer_def read_item_text_string_def read_item_simple_def
  read_item_array_def get_uint64_value_def get_int64_value_def get_double_def get_size_def
  record_tag_def item_tags_def timestamp_tag_def handle_string_def string_tag_def
  begin_array_def begin_object_def end_array_def end_object_def open_namespace_def
  read_text_string_def read_byte_string_def read_functor_def write_byte_string_def
  read_exponent_def hexfloat_mantissa_def read_array_as_hexfloat_string_def
  decimal_mantissa_def read_array_as_decimal_string_def min_length_for_stringref_def
  tagged_byte_string_event_def store_read_def store_text_def
  read_name_def read_name_stringref_def read_name_default_def parse_step_def
lemmas eval_defs = source_defs head_defs parser_defs reader_defs Let_def upt_rec
lemmas wire_defs = wire_tags_def head_wire_def is_tag_def complete_def tag_value_def
  chunk_ok_def arg_length_def argument_def item_due_def key_due_def stringref_pending_def
  pending_item_tag_def restart_def pausing_def

section \<open>Truncated arguments\<close>

text \<open>
  C1. The claim: the input \<open>0x1A 0x00 0x00\<close> makes \<open>parse\<close> report \<open>unexpected_eof\<close>, as
  does every head whose argument is cut short. \<open>get_uint64_value\<close> checks the read of a
  one-byte argument only; for two, four and eight bytes it does not look at what
  \<open>source_.read\<close> returns. On \<open>0x1A 0x00 0x00\<close> the parser therefore sets no error and
  delivers an unsigned integer made of the two bytes read and of two bytes the buffer
  held before, then \<open>flush\<close>.
\<close>

theorem C1_truncated_argument_sets_no_error:
  "\<exists>p. parse (Suc (Suc (Suc n))) (continuing E)
          (make_parser (mk_source [0x1A, 0x00, 0x00]) default_max_nesting_depth) = Some p
       \<and> ec p = None \<and> done_m p
       \<and> events p = [Uint64_value (big_to_native [0, 0, uninit E 2, uninit E 3]) tag_none, Flush]"
proof -
  have "\<exists>p. parse (Suc (Suc (Suc n))) (continuing E)
          (make_parser (mk_source [0x1A, 0x00, 0x00]) default_max_nesting_depth) = Some p
       \<and> ec p = None \<and> done_m p
       \<and> events p = [Uint64_value (big_to_native
            [0, 0, uninit E (Suc (Suc 0)), uninit E (Suc (Suc (Suc 0)))]) tag_none, Flush]"
    by (simp add: eval_defs)
  then show ?thesis
    by (simp only: numeral_2_eq_2 numeral_3_eq_3)
qed

text \<open>The one-byte argument is checked: \<open>0x18\<close> alone is \<open>unexpected_eof\<close>.\<close>

lemma one_byte_argument_truncated:
  "\<exists>p. parse (Suc (Suc n)) (continuing E)
          (make_parser (mk_source [0x18]) default_max_nesting_depth) = Some p
       \<and> ec p = Some unexpected_eof \<and> stopped p \<and> events p = []"
  by (simp add: eval_defs)

section \<open>Bigfloats\<close>

text \<open>
  C2. The claim: a bigfloat whose mantissa is not negative is rendered without a leading
  \<open>-\<close>. For a mantissa that is a tag-2 bignum \<open>read_array_as_hexfloat_string\<close> pushes
  \<open>-0x\<close> before the digits, as it does for tag 3: the bigfloat \<open>[0, +1]\<close>, the bytes
  \<open>C5 82 00 C2 41 01\<close>, is delivered with a leading \<open>-\<close>. The exponent is written by
  \<open>uinteger_to_hex_string\<close>, the routine that writes the mantissa.
\<close>

theorem C2_positive_bignum_mantissa_gets_minus:
  "\<exists>p. parse (Suc (Suc (Suc n))) (continuing E)
          (make_parser (mk_source [0xC5, 0x82, 0x00, 0xC2, 0x41, 0x01]) default_max_nesting_depth)
          = Some p
       \<and> ec p = None
       \<and> events p = [String_value (ascii ''-0x'' @ bignum_dump_hex_string E 1 [0x01]
                        @ ascii ''p'' @ uinteger_to_hex_string E 0) tag_bigfloat, Flush]"
  by (simp add: eval_defs)

section \<open>Errors and \<open>more_\<close>\<close>

text \<open>
  C3. The claim: whenever \<open>parse\<close> sets the error code, \<open>more_\<close> is false afterwards and
  a further call delivers nothing. \<open>begin_array\<close> and \<open>begin_object\<close> set
  \<open>max_nesting_depth_exceeded\<close> and return without touching \<open>more_\<close>. With a depth limit
  of 1 and the input \<open>0x81 0x80\<close>, an array in an array, \<open>parse\<close> returns that error
  with \<open>stopped()\<close> false, and the next call delivers \<open>end_array\<close> and \<open>flush\<close>.
\<close>

theorem C3_depth_error_leaves_parser_running:
  "\<exists>p q. parse (Suc (Suc (Suc (Suc n)))) (continuing E) (make_parser (mk_source [0x81, 0x80]) 1)
           = Some p
       \<and> ec p = Some max_nesting_depth_exceeded \<and> \<not> stopped p
       \<and> events p = [Begin_array (Some 1) tag_none]
       \<and> parse (Suc (Suc (Suc (Suc n)))) (continuing E) p = Some q
       \<and> events q = [Begin_array (Some 1) tag_none, End_array, Flush]"
  by (simp add: eval_defs)

section \<open>Negative integers\<close>

text \<open>
  C4. The claim: a negative integer with argument \<open>a < 2^63\<close> is delivered as
  \<open>-1 - a\<close>, and an eight-byte argument with the top bit set raises \<open>number_too_large\<close>.
  \<open>get_int64_value\<close> has no such check: it computes
  \<open>static_cast<int64_t>(-1) - static_cast<int64_t>(x)\<close>, which for
  \<open>3B 80 00 00 00 00 00 00 00\<close> (the integer \<open>-1 - 2^63\<close>) is the positive number
  \<open>2^63 - 1\<close>, delivered without an error.
\<close>

theorem C4_negative_overflow_wraps:
  "\<exists>p. parse (Suc (Suc (Suc n))) (continuing E)
          (make_parser (mk_source [0x3B, 0x80, 0, 0, 0, 0, 0, 0, 0]) default_max_nesting_depth)
          = Some p
       \<and> ec p = None
       \<and> events p = [Int64_value 0x7FFFFFFFFFFFFFFF tag_none, Flush]
       \<and> sint (0x7FFFFFFFFFFFFFFF :: 64 word) = 2 ^ 63 - 1"
  by (simp add: eval_defs big_to_native_def)

section \<open>What the readers leave untouched\<close>

lemma quiet_refl [simp]: "quiet p p"
  by (simp add: quiet_def)

lemma quiet_trans: "quiet p q \<Longrightarrow> quiet q r \<Longrightarrow> quiet p r"
  by (simp add: quiet_def)

lemma quiet_set_error [simp]: "quiet p (set_error e q) = quiet p q"
  by (simp add: quiet_def set_error_def)

lemma quiet_source [simp]: "quiet p (q\<lparr>source_m := s\<rparr>) = quiet p q"
  by (simp add: quiet_def)

lemma quiet_get_uint64_value: "quiet p (snd (get_uint64_value E p))"
  by (simp add: get_uint64_value_def Let_def split: prod.splits option.splits)

lemma quiet_get_int64_value: "quiet p (snd (get_int64_value E p))"
  using quiet_get_uint64_value [of p E]
  by (auto simp: get_int64_value_def Let_def split: prod.splits option.splits cbor_major_type.splits)

lemma quiet_get_double: "quiet p (snd (get_double E p))"
  by (simp add: get_double_def Let_def split: prod.splits option.splits)

lemma quiet_get_size: "quiet p (snd (get_size E p))"
  using quiet_get_uint64_value [of p E]
  by (auto simp: get_size_def Let_def split: prod.splits)

lemma quiet_record_tag [simp]: "quiet p (record_tag v q) = quiet p q"
  by (simp add: quiet_def record_tag_def)

lemma quiet_record_tag_left [simp]: "quiet (record_tag v p) q = quiet p q"
  by (simp add: quiet_def record_tag_def)

lemma quiet_read_tags: "read_tags n E p = Some q \<Longrightarrow> quiet p q"
proof (induction n arbitrary: p)
  case 0
  then show ?case by simp
next
  case (Suc n)
  show ?case
  proof (cases "source_peek (source_m p)")
    case None
    with Suc.prems show ?thesis by auto
  next
    case (Some c)
    obtain val p1 where g: "get_uint64_value E p = (val, p1)" by force
    have q1: "quiet p p1" using quiet_get_uint64_value [of p E] g by simp
    show ?thesis
    proof (cases "get_major_type c = mt_semantic_tag \<and> ec p1 = None")
      case True
      with Suc.prems Some g have "read_tags n E (record_tag val p1) = Some q" by simp
      from Suc.IH [OF this] have "quiet p1 q" by simp
      with q1 show ?thesis by (rule quiet_trans)
    next
      case False
      with Suc.prems Some g q1 show ?thesis by (auto split: if_splits)
    qed
  qed
qed

lemma quiet_more [simp]: "quiet p (q\<lparr>more_m := b\<rparr>) = quiet p q"
  by (simp add: quiet_def)

lemma quiet_ec [simp]: "quiet p (q\<lparr>ec := e\<rparr>) = quiet p q"
  by (simp add: quiet_def)

lemma quiet_source_left [simp]: "quiet (p\<lparr>source_m := s\<rparr>) q = quiet p q"
  by (simp add: quiet_def)

lemma quiet_text_buffer [simp]: "quiet p (q\<lparr>text_buffer_m := t\<rparr>) = quiet p q"
  by (simp add: quiet_def)

lemma quiet_text_buffer_left [simp]: "quiet (p\<lparr>text_buffer_m := t\<rparr>) q = quiet p q"
  by (simp add: quiet_def)

lemma quiet_stringref_push [simp]: "quiet p (stringref_push e q) = quiet p q"
  by (simp add: quiet_def stringref_push_def split: list.splits)

text \<open>
  The string readers: they are quiet, and the functor's flag is false only when an
  error has been set.
\<close>

lemma chunk_post_iterate:
  "chunk_post p (iterate_string_chunks n E acc p)"
  "chunk_post p (chunks_loop n E acc p)"
proof (induction n E acc p and n E acc p rule: iterate_string_chunks_chunks_loop.induct)
  case (1 E acc p)
  show ?case by (simp add: chunk_post_def)
next
  case (2 n E acc p)
  show ?case
  proof (cases "source_peek (source_m p)")
    case None
    then show ?thesis by (simp add: chunk_post_def)
  next
    case (Some c)
    show ?thesis
    proof (cases "get_additional_information_value c = 0x1F")
      case True
      with 2 Some show ?thesis
        by (auto simp: chunk_post_def split: option.splits)
    next
      case False
      obtain len p1 where g: "get_size E p = (len, p1)" by force
      have "quiet p p1" using quiet_get_size [of p E] g by simp
      with False Some g show ?thesis
        by (auto simp: chunk_post_def Let_def split: prod.splits)
    qed
  qed
next
  case (3 E acc p)
  show ?case by (simp add: chunk_post_def)
next
  case (4 n E acc p)
  show ?case
  proof (cases "source_peek (source_m p)")
    case None
    then show ?thesis by (simp add: chunk_post_def)
  next
    case (Some test)
    show ?thesis
    proof (cases "test = 0xFF")
      case True
      with Some show ?thesis by (simp add: chunk_post_def)
    next
      case False
      note ne = this
      show ?thesis
      proof (cases "iterate_string_chunks n E acc p")
        case None
        with Some ne show ?thesis by (simp add: chunk_post_def)
      next
        case (Some r)
        obtain acc' ok p' where r: "r = (acc', ok, p')" by (cases r) auto
        have a: "quiet p p' \<and> (\<not> ok \<longrightarrow> ec p' \<noteq> None)"
          using 4(1) [OF \<open>source_peek (source_m p) = Some test\<close> ne] Some r
          by (simp add: chunk_post_def)
        show ?thesis
        proof (cases "ec p' = None")
          case True
          have "chunk_post p' (chunks_loop n E acc' p')"
            by (rule 4(2) [OF \<open>source_peek (source_m p) = Some test\<close> ne Some])
               (simp_all add: r True)
          with a True Some r ne \<open>source_peek (source_m p) = Some test\<close> show ?thesis
            by (auto simp: chunk_post_def quiet_def split: option.splits)
        next
          case False
          with a Some r ne \<open>source_peek (source_m p) = Some test\<close> show ?thesis
            by (auto simp: chunk_post_def)
        qed
      qed
    qed
  qed
qed

lemma quiet_read_text_string: "read_text_string n E p = Some q \<Longrightarrow> quiet p q"
  using chunk_post_iterate(1) [of p n E "text_buffer_m p"]
  by (auto simp: read_text_string_def chunk_post_def Let_def
           split: option.splits if_splits prod.splits)

lemma read_byte_string_post:
  assumes "read_byte_string n E p = Some (ok, v, q)"
  shows "quiet p q \<and> (\<not> ok \<longrightarrow> ec q \<noteq> None)"
proof (cases "source_peek (source_m p)")
  case None
  with assms show ?thesis by (auto simp: read_byte_string_def)
next
  case (Some c)
  show ?thesis
  proof (cases "get_additional_information_value c = 0x1F")
    case True
    with assms Some chunk_post_iterate(1) [of p n E "[]"] show ?thesis
      by (auto simp: read_byte_string_def chunk_post_def split: option.splits if_splits)
  next
    case False
    obtain len p1 where g: "get_size E p = (len, p1)" by force
    have "quiet p p1" using quiet_get_size [of p E] g by simp
    with False assms Some g show ?thesis
      by (auto simp: read_byte_string_def Let_def split: prod.splits if_splits)
  qed
qed



section \<open>String references, once the tags are read\<close>



section \<open>One callback for one item\<close>

lemma tracks_snoc:
  "tracks (evs @ [e]) = (case tracks evs of None \<Rightarrow> None | Some c \<Rightarrow> track c e)"
  by (simp add: tracks_def)

lemma track_item: "is_item e \<Longrightarrow> track c e = map_option (enter e) (child c)"
  by (cases e) (simp_all add: is_item_def)

lemma quiet_item_delivered: "quiet p p1 \<Longrightarrow> item_delivered p1 q \<Longrightarrow> item_delivered p q"
  by (auto simp: quiet_def item_delivered_def abs_stack_def)

lemma item_delivered_quiet: "item_delivered p p1 \<Longrightarrow> quiet p1 q \<Longrightarrow> item_delivered p q"
  by (auto simp: quiet_def item_delivered_def abs_stack_def)

lemma item_delivered_emit:
  "quiet p q \<Longrightarrow> is_item e \<Longrightarrow> enter e (abs_stack p) = abs_stack p \<Longrightarrow> item_delivered p (emit E e q)"
  by (auto simp: quiet_def item_delivered_def abs_stack_def emit_def)

lemma item_delivered_upd [simp]:
  "item_delivered p (q\<lparr>item_tag := b\<rparr>) = item_delivered p q"
  "item_delivered p (q\<lparr>source_m := s\<rparr>) = item_delivered p q"
  "item_delivered p (q\<lparr>more_m := m\<rparr>) = item_delivered p q"
  by (simp_all add: item_delivered_def abs_stack_def)

lemma quiet_upd [simp]:
  "quiet p (q\<lparr>item_tag := b\<rparr>) = quiet p q"
  "quiet p (q\<lparr>stringref_tag := b\<rparr>) = quiet p q"
  "quiet p (q\<lparr>stringref_namespace_tag := b\<rparr>) = quiet p q"
  "quiet p (q\<lparr>bytes_buffer_m := v\<rparr>) = quiet p q"
  "quiet p (q\<lparr>typed_array_m := v\<rparr>) = quiet p q"
  "quiet p (q\<lparr>shape_m := sh\<rparr>) = quiet p q"
  "quiet p (q\<lparr>nesting_depth_m := d\<rparr>) = quiet p q"
  "quiet p (q\<lparr>stringref_map_stack_m := t\<rparr>) = quiet p q"
  by (simp_all add: quiet_def)

lemma quiet_upd_left [simp]:
  "quiet (p\<lparr>item_tag := b\<rparr>) q = quiet p q"
  "quiet (p\<lparr>stringref_tag := b\<rparr>) q = quiet p q"
  "quiet (p\<lparr>shape_m := sh\<rparr>) q = quiet p q"
  "quiet (p\<lparr>nesting_depth_m := d\<rparr>) q = quiet p q"
  "quiet (p\<lparr>more_m := m\<rparr>) q = quiet p q"
  by (simp_all add: quiet_def)

lemma quiet_append_text [simp]: "quiet p (append_text t q) = quiet p q"
  by (simp add: append_text_def)

lemma quiet_store [simp]:
  "quiet p (store_read t v q) = quiet p q"
  "quiet p (store_text E t v q) = quiet p q"
  by (simp_all add: store_read_def store_text_def)

lemma quiet_read_functor: "read_functor n E rd p = Some (v, q) \<Longrightarrow> quiet p q"
  using read_byte_string_post [of n E p]
  by (cases rd) (auto simp: read_functor_def)

lemma is_item_tagged [simp]: "is_item (tagged_byte_string_event E t v)"
  by (simp add: tagged_byte_string_event_def is_item_def)

lemma enter_tagged [simp]: "enter (tagged_byte_string_event E t v) c = c"
  by (simp add: tagged_byte_string_event_def)

lemma write_byte_string_delivered:
  assumes "write_byte_string n E rd p = Some q" "ec q = None" "quiet p0 p"
  shows "item_delivered p0 q"
proof -
  from assms(1) obtain v p1 where rf: "read_functor n E rd p = Some (v, p1)"
    by (auto simp: write_byte_string_def split: option.splits)
  have q1: "quiet p0 p1" using assms(3) quiet_read_functor [OF rf] by (rule quiet_trans)
  show ?thesis
  proof (cases "item_tag p")
    case True
    with assms(1,2) rf have
      "q = (emit E (tagged_byte_string_event E (item_tag_m p) v)
              (store_text E (item_tag_m p) v (store_read (item_tag_m p) v p1)))\<lparr>item_tag := False\<rparr>"
      by (auto simp: write_byte_string_def Let_def split: if_splits)
    then show ?thesis using q1 by (simp add: item_delivered_emit)
  next
    case False
    with assms(1,2) rf have "q = emit E (Byte_string_value v tag_none) (p1\<lparr>bytes_buffer_m := v\<rparr>)"
      by (auto simp: write_byte_string_def Let_def split: if_splits)
    then show ?thesis using q1 by (simp add: item_delivered_emit is_item_def)
  qed
qed

lemma quiet_via_uint64:
  "get_uint64_value E p = (v, q) \<Longrightarrow> quiet p0 p \<Longrightarrow> quiet p0 q"
  using quiet_get_uint64_value [of p E] by (auto intro: quiet_trans)

lemma quiet_via_int64:
  "get_int64_value E p = (v, q) \<Longrightarrow> quiet p0 p \<Longrightarrow> quiet p0 q"
  using quiet_get_int64_value [of p E] by (auto intro: quiet_trans)

lemma quiet_via_double:
  "get_double E p = (v, q) \<Longrightarrow> quiet p0 p \<Longrightarrow> quiet p0 q"
  using quiet_get_double [of p E] by (auto intro: quiet_trans)

lemma quiet_via_size:
  "get_size E p = (v, q) \<Longrightarrow> quiet p0 p \<Longrightarrow> quiet p0 q"
  using quiet_get_size [of p E] by (auto intro: quiet_trans)

lemma quiet_via_byte_string:
  "read_byte_string n E p = Some (ok, v, q) \<Longrightarrow> quiet p0 p \<Longrightarrow> quiet p0 q"
  using read_byte_string_post [of n E p ok v q] by (auto intro: quiet_trans)

lemma quiet_read_exponent:
  "read_exponent E err c p = (v, q) \<Longrightarrow> quiet p0 p \<Longrightarrow> quiet p0 q"
  by (auto simp: read_exponent_def split: cbor_major_type.splits
           intro: quiet_via_uint64 quiet_via_int64)

lemma quiet_decimal_mantissa:
  assumes "decimal_mantissa n E p = Some (s, q)" "quiet p0 p"
  shows "quiet p0 q"
proof (cases "get_major_type (peek_byte (source_m p))")
  case mt_unsigned_integer
  with assms show ?thesis
    by (auto simp: decimal_mantissa_def split: prod.splits intro: quiet_via_uint64)
next
  case mt_negative_integer
  with assms show ?thesis
    by (auto simp: decimal_mantissa_def split: prod.splits intro: quiet_via_int64)
next
  case mt_semantic_tag
  with assms show ?thesis
    by (auto simp: decimal_mantissa_def Let_def source_get_def
             split: prod.splits option.splits if_splits list.splits
             dest!: quiet_via_byte_string [where ?p0.0 = p0])
qed (use assms in \<open>auto simp: decimal_mantissa_def\<close>)

lemma quiet_read_array_as_decimal_string:
  assumes "read_array_as_decimal_string n E p = Some q" "quiet p0 p"
  shows "quiet p0 q"
  using assms
  by (auto simp: read_array_as_decimal_string_def Let_def source_get_def
           split: prod.splits option.splits if_splits list.splits
           dest!: quiet_read_exponent [where ?p0.0 = p0] quiet_decimal_mantissa [where ?p0.0 = p0])

lemma quiet_hexfloat_mantissa:
  assumes "hexfloat_mantissa n E p = Some (r, q)" "quiet p0 p"
  shows "quiet p0 q"
proof (cases "get_major_type (peek_byte (source_m p))")
  case mt_unsigned_integer
  with assms show ?thesis
    by (auto simp: hexfloat_mantissa_def split: prod.splits if_splits intro: quiet_via_uint64)
next
  case mt_negative_integer
  with assms show ?thesis
    by (auto simp: hexfloat_mantissa_def split: prod.splits if_splits intro: quiet_via_int64)
next
  case mt_semantic_tag
  with assms show ?thesis
    by (auto simp: hexfloat_mantissa_def Let_def source_get_def
             split: prod.splits option.splits if_splits list.splits
             dest!: quiet_via_byte_string [where ?p0.0 = p0])
qed (use assms in \<open>auto simp: hexfloat_mantissa_def\<close>)

lemma quiet_read_array_as_hexfloat_string:
  assumes "read_array_as_hexfloat_string n E p = Some q" "quiet p0 p"
  shows "quiet p0 q"
  using assms
  by (auto simp: read_array_as_hexfloat_string_def Let_def source_get_def
           split: prod.splits option.splits if_splits list.splits
           dest!: quiet_read_exponent [where ?p0.0 = p0] quiet_hexfloat_mantissa [where ?p0.0 = p0])

lemma quiet_read_shape_indefinite:
  "read_shape_indefinite n E p = Some q \<Longrightarrow> quiet p0 p \<Longrightarrow> quiet p0 q"
proof (induction n arbitrary: p)
  case 0
  then show ?case by simp
next
  case (Suc n)
  obtain dim p1 where g: "get_size E p = (dim, p1)" by force
  have q1: "quiet p0 p1" using g Suc.prems(2) by (rule quiet_via_size)
  from Suc.prems g q1 show ?case
    by (auto split: option.splits if_splits intro!: Suc.IH)
qed

lemma quiet_read_shape_definite:
  "read_shape_definite n E i sz p = Some q \<Longrightarrow> quiet p0 p \<Longrightarrow> quiet p0 q"
proof (induction n arbitrary: p i)
  case 0
  then show ?case by simp
next
  case (Suc n)
  obtain dim p1 where g: "get_size E p = (dim, p1)" by force
  have q1: "quiet p0 p1" using g Suc.prems(2) by (rule quiet_via_size)
  from Suc.prems g q1 show ?case
    by (auto split: if_splits intro!: Suc.IH)
qed

lemma quiet_read_shape:
  assumes "read_shape n E info p = Some q" "quiet p0 p"
  shows "quiet p0 q"
proof -
  obtain sz p1 where g: "get_size E (p\<lparr>shape_m := []\<rparr>) = (sz, p1)" by force
  have q1: "quiet p0 p1" using g assms(2) by (auto intro: quiet_via_size)
  from assms g q1 show ?thesis
    by (auto simp: read_shape_def Let_def split: if_splits
             intro: quiet_read_shape_indefinite quiet_read_shape_definite)
qed

lemma handle_string_delivered: "quiet p0 p \<Longrightarrow> item_delivered p0 (handle_string E v p)"
  by (simp add: handle_string_def item_delivered_emit is_item_def)

lemma abs_stack_push [simp]:
  "abs_stack (push_state f p) = abs_frame f # abs_stack p"
  by (simp add: abs_stack_def push_state_def)

lemma open_namespace_quiet:
  "open_namespace p = (pop, q) \<Longrightarrow> quiet p0 p \<Longrightarrow> quiet p0 q"
  by (auto simp: open_namespace_def split: if_splits)

lemma item_delivered_emit_push:
  assumes "quiet p q" "is_item e" "enter e (abs_stack p) = abs_frame f # abs_stack p"
  shows "item_delivered p (emit E e (push_state f q))"
  using assms
  by (auto simp: quiet_def item_delivered_def abs_stack_def emit_def push_state_def)

lemma abs_frame_mk [simp]:
  "abs_frame (mk_parse_state mode_array len pop) = C_array len"
  "abs_frame (mk_parse_state mode_indefinite_array len pop) = C_indef_array"
  "abs_frame (mk_parse_state mode_map_key len pop) = C_map_key len"
  "abs_frame (mk_parse_state mode_indefinite_map_key len pop) = C_indef_map_key"
  "abs_frame (mk_parse_state mode_multi_dim len pop) = C_multi"
  by (simp_all add: abs_frame_def mk_parse_state_def)

lemma begin_array_delivered:
  assumes "ec (begin_array E info p) = None" "quiet p0 p"
  shows "item_delivered p0 (begin_array E info p)"
proof -
  let ?p1 = "p\<lparr>nesting_depth_m := nesting_depth_m p + 1\<rparr>"
  obtain pop p2 where o: "open_namespace ?p1 = (pop, p2)" by force
  have q2: "quiet p0 p2" using o assms(2) by (auto intro: open_namespace_quiet)
  obtain len p3 where g: "get_size E p2 = (len, p3)" by force
  have q3: "quiet p0 p3" using g q2 by (rule quiet_via_size)
  show ?thesis
  proof (cases "nesting_depth_m ?p1 > max_nesting_depth ?p1")
    case True
    with assms(1) show ?thesis by (simp add: begin_array_def Let_def)
  next
    case False
    show ?thesis
    proof (cases "info = 0x1F")
      case True
      with False o q2 show ?thesis
        by (simp add: begin_array_def Let_def item_delivered_emit_push is_item_def)
    next
      case i: False
      with False o g assms(1) have "ec p3 = None"
        by (auto simp: begin_array_def Let_def split: if_splits)
      with False i o g q3 show ?thesis
        by (simp add: begin_array_def Let_def item_delivered_emit_push is_item_def)
    qed
  qed
qed

lemma begin_object_delivered:
  assumes "ec (begin_object E info p) = None" "quiet p0 p"
  shows "item_delivered p0 (begin_object E info p)"
proof -
  let ?p1 = "p\<lparr>nesting_depth_m := nesting_depth_m p + 1\<rparr>"
  obtain pop p2 where o: "open_namespace ?p1 = (pop, p2)" by force
  have q2: "quiet p0 p2" using o assms(2) by (auto intro: open_namespace_quiet)
  obtain len p3 where g: "get_size E p2 = (len, p3)" by force
  have q3: "quiet p0 p3" using g q2 by (rule quiet_via_size)
  show ?thesis
  proof (cases "nesting_depth_m ?p1 > max_nesting_depth ?p1")
    case True
    with assms(1) show ?thesis by (simp add: begin_object_def Let_def)
  next
    case False
    show ?thesis
    proof (cases "info = 0x1F")
      case True
      with False o q2 show ?thesis
        by (simp add: begin_object_def Let_def item_delivered_emit_push is_item_def)
    next
      case i: False
      with False o g assms(1) have "ec p3 = None"
        by (auto simp: begin_object_def Let_def split: if_splits)
      with False i o g q3 show ?thesis
        by (simp add: begin_object_def Let_def item_delivered_emit_push is_item_def)
    qed
  qed
qed

lemma produce_begin_multi_dim_delivered:
  assumes "produce_begin_multi_dim n E tag p = Some q" "ec q = None" "quiet p0 p"
  shows "item_delivered p0 q"
proof -
  from assms(1,2) obtain c s where g: "source_get (source_m p) = (Some c, s)"
    by (cases "source_get (source_m p)")
       (auto simp: produce_begin_multi_dim_def set_error_def split: option.splits)
  from assms(1) g obtain p1 where
    rs: "read_shape n E (get_additional_information_value c) (p\<lparr>source_m := s\<rparr>) = Some p1"
    by (auto simp: produce_begin_multi_dim_def split: option.splits if_splits)
  have q1: "quiet p0 p1" using rs assms(3) by (auto intro: quiet_read_shape)
  from assms(1,2) g rs have
    "q = emit E (Begin_multi_dim (shape_m p1) tag) (push_state (mk_parse_state mode_multi_dim 0 False) p1)"
    by (auto simp: produce_begin_multi_dim_def split: if_splits)
  with q1 show ?thesis
    by (simp add: item_delivered_emit_push is_item_def)
qed

text \<open>The cases of \<open>read_item\<close>: a return means an error, and a result without an error
  has delivered one item.\<close>

lemma read_item_unsigned_integer_delivered:
  assumes "read_item_unsigned_integer n E p = Some (r, q)" "quiet p0 p"
  shows "(r \<longrightarrow> ec q \<noteq> None) \<and> (ec q = None \<longrightarrow> item_delivered p0 q)"
proof -
  obtain val p1 where g: "get_uint64_value E p = (val, p1)" by force
  have q1: "quiet p0 p1" using g assms(2) by (rule quiet_via_uint64)
  show ?thesis
  proof (cases "ec p1 = None \<and> stringref_map_stack_m p1 \<noteq> [] \<and> stringref_tag p1")
    case False
    with assms(1) g q1 show ?thesis
      by (auto simp: read_item_unsigned_integer_def Let_def item_delivered_emit is_item_def
               split: if_splits)
  next
    case True
    let ?p2 = "p1\<lparr>stringref_tag := False\<rparr>"
    have q2: "quiet p0 ?p2" using q1 by simp
    show ?thesis
    proof (cases "unat val \<ge> length (hd (stringref_map_stack_m p1))")
      case True
      with \<open>ec p1 = None \<and> _\<close> assms(1) g show ?thesis
        by (auto simp: read_item_unsigned_integer_def Let_def set_error_def)
    next
      case False
      show ?thesis
      proof (cases "hd (stringref_map_stack_m p1) ! unat val")
        case (mapped_text str)
        with False \<open>ec p1 = None \<and> _\<close> assms(1) g handle_string_delivered [OF q2, of E str]
        show ?thesis
          by (auto simp: read_item_unsigned_integer_def Let_def)
      next
        case (mapped_bytes bytes)
        with False \<open>ec p1 = None \<and> _\<close> g
        have eq: "read_item_unsigned_integer n E p =
                    (case write_byte_string n E (Some bytes) ?p2 of
                       None \<Rightarrow> None | Some p3 \<Rightarrow> Some (ec p3 \<noteq> None, p3))"
          by (simp add: read_item_unsigned_integer_def Let_def)
        have c: "(case write_byte_string n E (Some bytes) ?p2 of
                    None \<Rightarrow> None | Some p3 \<Rightarrow> Some (ec p3 \<noteq> None, p3)) = Some (r, q)"
          unfolding eq [symmetric] by (rule assms(1))
        show ?thesis
        proof (cases "write_byte_string n E (Some bytes) ?p2")
          case None
          with c show ?thesis by simp
        next
          case (Some p3)
          with c have rq: "r = (ec p3 \<noteq> None)" "q = p3" by auto
          have "ec p3 = None \<Longrightarrow> item_delivered p0 p3"
            by (rule write_byte_string_delivered [OF Some _ q2])
          with rq show ?thesis by blast
        qed
      qed
    qed
  qed
qed

lemma read_item_negative_integer_delivered:
  assumes "read_item_negative_integer E p = (r, q)" "quiet p0 p"
  shows "(r \<longrightarrow> ec q \<noteq> None) \<and> (ec q = None \<longrightarrow> item_delivered p0 q)"
proof -
  obtain val p1 where g: "get_int64_value E p = (val, p1)" by force
  have q1: "quiet p0 p1" using g assms(2) by (rule quiet_via_int64)
  from assms(1) g q1 show ?thesis
    by (auto simp: read_item_negative_integer_def item_delivered_emit is_item_def split: if_splits)
qed

lemma read_item_text_string_delivered:
  assumes "read_item_text_string n E p = Some (r, q)" "quiet p0 p"
  shows "(r \<longrightarrow> ec q \<noteq> None) \<and> (ec q = None \<longrightarrow> item_delivered p0 q)"
proof -
  from assms(1) obtain p1 where t: "read_text_string n E (p\<lparr>text_buffer_m := []\<rparr>) = Some p1"
    by (auto simp: read_item_text_string_def split: option.splits)
  have q1: "quiet p0 p1" using quiet_read_text_string [OF t] assms(2)
    by (auto simp: quiet_def)
  from assms(1) t handle_string_delivered [OF q1, of E "text_buffer_m p1"] show ?thesis
    by (auto simp: read_item_text_string_def Let_def set_error_def split: if_splits)
qed

lemma read_item_simple_delivered:
  assumes "read_item_simple E info p = (r, q)" "quiet p0 p"
  shows "(r \<longrightarrow> ec q \<noteq> None) \<and> (ec q = None \<longrightarrow> item_delivered p0 q)"
proof -
  obtain val p1 where g: "get_uint64_value E p = (val, p1)" by force
  have q1: "quiet p0 p1" using g assms(2) by (rule quiet_via_uint64)
  obtain d p2 where gd: "get_double E p = (d, p2)" by force
  have q2: "quiet p0 p2" using gd assms(2) by (rule quiet_via_double)
  from assms g gd q1 q2 show ?thesis
    by (auto simp: read_item_simple_def ignore1_def set_error_def item_delivered_emit is_item_def
             split: if_splits)
qed

lemma read_item_array_delivered:
  assumes "read_item_array n E info p = Some (r, q)" "quiet p0 p"
  shows "(r \<longrightarrow> ec q \<noteq> None) \<and> (ec q = None \<longrightarrow> item_delivered p0 q)"
proof (cases "item_tag p")
  case False
  with assms begin_array_delivered [of E info p p0] show ?thesis
    by (auto simp: read_item_array_def)
next
  case True
  have pq: "quiet p0 (p\<lparr>text_buffer_m := []\<rparr>)" using assms(2) by simp
  consider (dec) "item_tag_m p = 0x04" | (hex) "item_tag_m p \<noteq> 0x04" "item_tag_m p = 0x05"
    | (row) "item_tag_m p \<noteq> 0x04" "item_tag_m p \<noteq> 0x05" "item_tag_m p = 40"
    | (col) "item_tag_m p \<noteq> 0x04" "item_tag_m p \<noteq> 0x05" "item_tag_m p \<noteq> 40" "item_tag_m p = 1040"
    | (arr) "item_tag_m p \<noteq> 0x04" "item_tag_m p \<noteq> 0x05" "item_tag_m p \<noteq> 40" "item_tag_m p \<noteq> 1040"
    by blast
  then show ?thesis
  proof cases
    case dec
    with True assms(1) obtain p1 where
      d: "read_array_as_decimal_string n E (p\<lparr>text_buffer_m := []\<rparr>) = Some p1"
      by (auto simp: read_item_array_def split: option.splits)
    have "quiet p0 p1" using d pq by (rule quiet_read_array_as_decimal_string)
    with dec True assms(1) d show ?thesis
      by (auto simp: read_item_array_def item_delivered_emit is_item_def split: if_splits)
  next
    case hex
    with True assms(1) obtain p1 where
      d: "read_array_as_hexfloat_string n E (p\<lparr>text_buffer_m := []\<rparr>) = Some p1"
      by (auto simp: read_item_array_def split: option.splits)
    have "quiet p0 p1" using d pq by (rule quiet_read_array_as_hexfloat_string)
    with hex True assms(1) d show ?thesis
      by (auto simp: read_item_array_def item_delivered_emit is_item_def split: if_splits)
  next
    case row
    with True assms(1) obtain p1 where
      d: "produce_begin_multi_dim n E tag_multi_dim_row_major p = Some p1"
      and rq: "r = False" "q = p1\<lparr>item_tag := False\<rparr>"
      by (auto simp: read_item_array_def)
    from produce_begin_multi_dim_delivered [OF d _ assms(2)] rq show ?thesis by auto
  next
    case col
    with True assms(1) obtain p1 where
      d: "produce_begin_multi_dim n E tag_multi_dim_column_major p = Some p1"
      and rq: "r = False" "q = p1\<lparr>item_tag := False\<rparr>"
      by (auto simp: read_item_array_def)
    from produce_begin_multi_dim_delivered [OF d _ assms(2)] rq show ?thesis by auto
  next
    case arr
    with True assms begin_array_delivered [of E info p p0] show ?thesis
      by (auto simp: read_item_array_def)
  qed
qed

lemma read_item_delivered:
  assumes "read_item n E p = Some q" "ec q = None"
  shows "item_delivered p q \<and> \<not> item_tag q"
proof -
  from assms(1) obtain p1 where t: "read_tags n E p = Some p1"
    by (auto simp: read_item_def split: option.splits)
  have q1: "quiet p p1" using t by (rule quiet_read_tags)
  from assms t have e1: "ec p1 = None"
    by (auto simp: read_item_def split: if_splits)
  from assms t e1 obtain c where pk: "source_peek (source_m p1) = Some c"
    by (cases "source_peek (source_m p1)") (auto simp: read_item_def set_error_def)
  let ?info = "get_additional_information_value c"
  define r where "r = (case get_major_type c of
                         mt_unsigned_integer \<Rightarrow> read_item_unsigned_integer n E p1
                       | mt_negative_integer \<Rightarrow> Some (read_item_negative_integer E p1)
                       | mt_byte_string \<Rightarrow>
                           (case write_byte_string n E None p1 of
                              None \<Rightarrow> None
                            | Some p2 \<Rightarrow> Some (ec p2 \<noteq> None, p2))
                       | mt_text_string \<Rightarrow> read_item_text_string n E p1
                       | mt_semantic_tag \<Rightarrow> None
                       | mt_simple \<Rightarrow> Some (read_item_simple E ?info p1)
                       | mt_array \<Rightarrow> read_item_array n E ?info p1
                       | mt_map \<Rightarrow> Some (False, begin_object E ?info p1))"
  have ri: "read_item n E p = (case r of None \<Rightarrow> None
              | Some (returned, p2) \<Rightarrow> if returned then Some p2 else Some (p2\<lparr>item_tag := False\<rparr>))"
    using t e1 pk by (simp add: read_item_def r_def Let_def)
  from assms(1) ri obtain ret p2 where r: "r = Some (ret, p2)"
    by (cases r) auto
  have post: "(ret \<longrightarrow> ec p2 \<noteq> None) \<and> (ec p2 = None \<longrightarrow> item_delivered p p2)"
  proof (cases "get_major_type c")
    case mt_unsigned_integer
    with r show ?thesis
      using read_item_unsigned_integer_delivered [of n E p1 ret p2 p] q1 by (simp add: r_def)
  next
    case mt_negative_integer
    with r show ?thesis
      using read_item_negative_integer_delivered [of E p1 ret p2 p] q1 by (simp add: r_def)
  next
    case mt_byte_string
    with r have c: "(case write_byte_string n E None p1 of
                       None \<Rightarrow> None | Some p3 \<Rightarrow> Some (ec p3 \<noteq> None, p3)) = Some (ret, p2)"
      by (simp add: r_def)
    show ?thesis
    proof (cases "write_byte_string n E None p1")
      case None
      with c show ?thesis by simp
    next
      case (Some p3)
      with c have rq: "ret = (ec p3 \<noteq> None)" "p2 = p3" by auto
      have "ec p3 = None \<Longrightarrow> item_delivered p p3"
        by (rule write_byte_string_delivered [OF Some _ q1])
      with rq show ?thesis by blast
    qed
  next
    case mt_text_string
    with r show ?thesis
      using read_item_text_string_delivered [of n E p1 ret p2 p] q1 by (simp add: r_def)
  next
    case mt_array
    with r show ?thesis
      using read_item_array_delivered [of n E ?info p1 ret p2 p] q1 by (simp add: r_def)
  next
    case mt_map
    with r show ?thesis
      using begin_object_delivered [of E ?info p1 p] q1 by (auto simp: r_def)
  next
    case mt_semantic_tag
    with r show ?thesis by (simp add: r_def)
  next
    case mt_simple
    with r show ?thesis
      using read_item_simple_delivered [of E ?info p1 ret p2 p] q1 by (simp add: r_def)
  qed
  from assms ri r post show ?thesis
    by (auto split: if_splits)
qed

lemma key_delivered_emit:
  "quiet p q \<Longrightarrow> key_delivered p (emit E (Key k) q)"
  by (auto simp: key_delivered_def quiet_def emit_def)

lemma read_name_stringref_delivered:
  assumes "ec (read_name_stringref E p) = None" "quiet p0 p"
  shows "key_delivered p0 (read_name_stringref E p)"
proof -
  obtain ref p1 where g: "get_uint64_value E (p\<lparr>stringref_tag := False\<rparr>) = (ref, p1)" by force
  have q1: "quiet p0 p1" using g assms(2) by (auto intro: quiet_via_uint64)
  from assms(1) g q1 show ?thesis
    by (cases "hd (stringref_map_stack_m p1) ! unat ref")
       (auto simp: read_name_stringref_def Let_def set_error_def key_delivered_emit
             split: if_splits)
qed

lemma read_name_default_delivered:
  assumes "read_name_default nested E p = Some q" "ec q = None" "quiet p0 p"
  shows "key_delivered p0 q"
  using assms
  by (auto simp: read_name_default_def Let_def set_error_def key_delivered_emit
           split: option.splits if_splits)

lemma read_name_delivered:
  assumes "read_name nested n E p = Some q" "ec q = None"
  shows "key_delivered p q"
proof -
  from assms(1) obtain p1 where t: "read_tags n E p = Some p1"
    by (auto simp: read_name_def split: option.splits)
  have q1: "quiet p p1" using t by (rule quiet_read_tags)
  from assms t have e1: "ec p1 = None"
    by (auto simp: read_name_def split: if_splits)
  from assms t e1 obtain c where pk: "source_peek (source_m p1) = Some c"
    by (cases "source_peek (source_m p1)") (auto simp: read_name_def set_error_def)
  show ?thesis
  proof (cases "get_major_type c")
    case mt_text_string
    with assms t e1 pk obtain p2 where
      rt: "read_text_string n E (p1\<lparr>text_buffer_m := []\<rparr>) = Some p2"
      by (auto simp: read_name_def split: option.splits)
    have "quiet p p2" using quiet_read_text_string [OF rt] q1 by (auto simp: quiet_def)
    with mt_text_string assms t e1 pk rt show ?thesis
      by (auto simp: read_name_def set_error_def key_delivered_emit split: if_splits)
  next
    case mt_byte_string
    with assms t e1 pk obtain ok v p2 where
      rb: "read_byte_string n E p1 = Some (ok, v, p2)"
      by (auto simp: read_name_def split: option.splits)
    from read_byte_string_post [OF rb] q1 have "quiet p p2" "\<not> ok \<longrightarrow> ec p2 \<noteq> None"
      by (auto intro: quiet_trans)
    with mt_byte_string assms t e1 pk rb show ?thesis
      by (auto simp: read_name_def Let_def key_delivered_emit split: if_splits)
  next
    case mt_unsigned_integer
    with assms t e1 pk q1 show ?thesis
      using read_name_stringref_delivered [of E p1 p] read_name_default_delivered [of nested E p1 q p]
      by (auto simp: read_name_def split: if_splits)
  qed (use assms t e1 pk q1 read_name_default_delivered [of nested E p1 q p]
        in \<open>auto simp: read_name_def\<close>)
qed

section \<open>The invariant of the driver\<close>

lemma inv_child_step:
  assumes "inv p" "\<not> done_m p"
    and "events p' = events p" "done_m p' = done_m p"
    and "child (abs_stack p) = Some (abs_stack p')"
    and "read_item n E p' = Some q" "ec q = None"
  shows "inv q"
proof -
  from read_item_delivered [OF assms(6,7)] obtain e where
    e: "events q = events p' @ [e]" "is_item e" "done_m q = done_m p'"
       "abs_stack q = enter e (abs_stack p')" and it: "\<not> item_tag q"
    by (auto simp: item_delivered_def)
  have "tracks (events q) = Some (abs_stack q)"
    using assms(1,3,5) e by (simp add: inv_def tracks_snoc track_item)
  with assms(2,4) e(3) it show ?thesis by (simp add: inv_def)
qed

lemma inv_key_step:
  assumes "inv p" "\<not> done_m p"
    and "events p' = events p" "done_m p' = done_m p"
    and "state_stack_m p' = b # rest" "mode b' = mode_map_value \<or> mode b' = mode_indefinite_map_value"
    and "\<And>k. track (abs_stack p) (Key k) = Some (abs_frame b' # map abs_frame rest)"
    and "read_name nested n E p' = Some q" "ec q = None"
  shows "inv (q\<lparr>state_stack_m := b' # rest\<rparr>)"
proof -
  from read_name_delivered [OF assms(8,9)] obtain k where
    k: "events q = events p' @ [Key k]" "state_stack_m q = state_stack_m p'" "done_m q = done_m p'"
    by (auto simp: key_delivered_def)
  have "tracks (events q) = Some (abs_frame b' # map abs_frame rest)"
    using assms(1,3) k(1) assms(7) [of k] by (simp add: inv_def tracks_snoc)
  with assms(2,4,6) k(3) show ?thesis by (simp add: inv_def abs_stack_def)
qed

lemma inv_end_step:
  assumes "inv p" "\<not> done_m p" "state_stack_m p = b # rest"
    and "mode b \<noteq> mode_map_value" "mode b \<noteq> mode_indefinite_map_value"
    and "track (abs_stack p) e = Some (map abs_frame rest)"
    and "events q = events p @ [e]" "state_stack_m q = rest" "done_m q = done_m p"
    and "item_tag q = item_tag p"
  shows "inv q"
  using assms by (auto simp: inv_def tracks_snoc abs_stack_def)

lemma pop_state_fields [simp]:
  "events (pop_state p) = events p" "done_m (pop_state p) = done_m p"
  "item_tag (pop_state p) = item_tag p" "ec (pop_state p) = ec p"
  "state_stack_m (pop_state p) = tl (state_stack_m p)"
  by (auto simp: pop_state_def split: list.splits)

lemma end_array_fields [simp]:
  "events (end_array E p) = events p @ [End_array]" "done_m (end_array E p) = done_m p"
  "item_tag (end_array E p) = item_tag p" "ec (end_array E p) = ec p"
  "state_stack_m (end_array E p) = tl (state_stack_m p)"
  by (simp_all add: end_array_def emit_def)

lemma end_object_fields [simp]:
  "events (end_object E p) = events p @ [End_object]" "done_m (end_object E p) = done_m p"
  "item_tag (end_object E p) = item_tag p" "ec (end_object E p) = ec p"
  "state_stack_m (end_object E p) = tl (state_stack_m p)"
  by (simp_all add: end_object_def emit_def)

lemma produce_end_multi_dim_fields [simp]:
  "events (produce_end_multi_dim E p) = events p @ [End_multi_dim]"
  "done_m (produce_end_multi_dim E p) = done_m p"
  "item_tag (produce_end_multi_dim E p) = item_tag p"
  "state_stack_m (produce_end_multi_dim E p) = tl (state_stack_m p)"
  by (simp_all add: produce_end_multi_dim_def emit_def Let_def)

lemma ignore1_fields [simp]:
  "events (ignore1 p) = events p" "done_m (ignore1 p) = done_m p"
  "item_tag (ignore1 p) = item_tag p" "ec (ignore1 p) = ec p"
  "state_stack_m (ignore1 p) = state_stack_m p" "abs_stack (ignore1 p) = abs_stack p"
  by (simp_all add: ignore1_def abs_stack_def)

lemma inv_ignore1 [simp]: "inv (ignore1 p) = inv p"
  by (simp add: inv_def)

lemma set_back_fields [simp]:
  "events (set_back f p) = events p" "done_m (set_back f p) = done_m p"
  "state_stack_m (set_back f p) = f # tl (state_stack_m p)"
  by (simp_all add: set_back_def)

lemma set_mode_fields [simp]:
  "events (set_mode m p) = events p" "done_m (set_mode m p) = done_m p"
  "state_stack_m p = b # rest \<Longrightarrow> state_stack_m (set_mode m p) = b\<lparr>mode := m\<rparr> # rest"
  by (simp_all add: set_mode_def split: list.splits)

lemma set_mode_eq:
  "state_stack_m p = b # rest \<Longrightarrow> set_mode m p = p\<lparr>state_stack_m := b\<lparr>mode := m\<rparr> # rest\<rparr>"
  by (simp add: set_mode_def)

lemma step_child:
  assumes "return_if_ec (read_item n E p') = Some (ret, p1)" "inv p" "\<not> done_m p"
    and "events p' = events p" "done_m p' = done_m p"
    and "child (abs_stack p) = Some (abs_stack p')"
  shows "(ret \<longrightarrow> ec p1 \<noteq> None) \<and> (\<not> ret \<longrightarrow> inv p1)"
proof (cases "read_item n E p'")
  case None
  with assms(1) show ?thesis by (simp add: return_if_ec_def)
next
  case (Some q)
  with assms(1) have rq: "ret = (ec q \<noteq> None)" "p1 = q"
    by (auto simp: return_if_ec_def)
  have "ec q = None \<Longrightarrow> inv q"
    by (rule inv_child_step [OF assms(2,3,4,5,6) Some])
  with rq show ?thesis by blast
qed

lemma step_key:
  assumes rn: "(case read_name nested n E p' of None \<Rightarrow> None
                | Some q \<Rightarrow> if ec q \<noteq> None then Some (True, q) else Some (False, set_mode m q))
               = Some (ret, p1)"
    and "inv p" "\<not> done_m p" "events p' = events p" "done_m p' = done_m p"
    and "state_stack_m p' = b # rest" "m = mode_map_value \<or> m = mode_indefinite_map_value"
    and "\<And>k. track (abs_stack p) (Key k) = Some (abs_frame (b\<lparr>mode := m\<rparr>) # map abs_frame rest)"
  shows "(ret \<longrightarrow> ec p1 \<noteq> None) \<and> (\<not> ret \<longrightarrow> inv p1)"
proof (cases "read_name nested n E p'")
  case None
  with rn show ?thesis by simp
next
  case (Some q)
  show ?thesis
  proof (cases "ec q = None")
    case False
    with rn Some show ?thesis by auto
  next
    case True
    from read_name_delivered [OF Some True] assms(6)
    have sq: "state_stack_m q = b # rest" by (simp add: key_delivered_def)
    have "inv (q\<lparr>state_stack_m := b\<lparr>mode := m\<rparr> # rest\<rparr>)"
      by (rule inv_key_step [OF assms(2,3,4,5,6) _ _ Some True]) (use assms(7,8) in auto)
    with rn Some True sq show ?thesis by (simp add: set_mode_eq)
  qed
qed

lemma child_array:
  "i < l \<Longrightarrow> child (C_array (l - i) # r) = Some (C_array (l - Suc i) # r)"
  by (cases "l - i") auto

lemma track_map_key:
  "i < l \<Longrightarrow> track (C_map_key (l - i) # r) (Key k) = Some (C_map_value (l - Suc i) # r)"
  by (cases "l - i") auto

lemma abs_stack_set_back:
  "state_stack_m p = b # rest \<Longrightarrow> abs_stack (set_back f p) = abs_frame f # map abs_frame rest"
  by (simp add: abs_stack_def)

lemma parse_step_inv:
  assumes ps: "parse_step nested n E p = Some (ret, p1)" and "inv p" and "\<not> done_m p"
  shows "(ret \<longrightarrow> ec p1 \<noteq> None) \<and> (\<not> ret \<longrightarrow> inv p1)"
proof -
  from ps obtain b rest where st: "state_stack_m p = b # rest"
    by (cases "state_stack_m p") (auto simp: parse_step_def)
  have ab: "abs_stack p = abs_frame b # map abs_frame rest"
    by (simp add: abs_stack_def st)
  let ?inc = "set_back (b\<lparr>index_f := index_f b + 1\<rparr>) p"
  have inc: "events ?inc = events p" "done_m ?inc = done_m p"
    "state_stack_m ?inc = b\<lparr>index_f := index_f b + 1\<rparr> # rest"
    "abs_stack ?inc = abs_frame (b\<lparr>index_f := index_f b + 1\<rparr>) # map abs_frame rest"
    by (simp_all add: st abs_stack_def)
  have sm: "\<And>m. events (set_mode m p) = events p" "\<And>m. done_m (set_mode m p) = done_m p"
    "\<And>m. abs_stack (set_mode m p) = abs_frame (b\<lparr>mode := m\<rparr>) # map abs_frame rest"
    by (simp_all add: st abs_stack_def)
  show ?thesis
  proof (cases "mode b")
    case mode_root
    with ps st have "return_if_ec (read_item n E (set_mode mode_before_done p)) = Some (ret, p1)"
      by (simp add: parse_step_def)
    then show ?thesis
      by (rule step_child [OF _ assms(2,3)])
         (simp_all add: sm ab abs_frame_def mode_root)
  next
    case mode_before_done
    with ps st have l: "length (state_stack_m p) = 1"
      and r: "ret = False" "p1 = p\<lparr>state_stack_m := [], more_m := False, done_m := True,
                                   events := events p @ [Flush]\<rparr>"
      by (auto simp: parse_step_def split: if_splits)
    from l st have "rest = []" by simp
    with assms(2) st mode_before_done r show ?thesis
      by (auto simp: inv_def tracks_snoc abs_stack_def abs_frame_def)
  next
    case mode_array
    show ?thesis
    proof (cases "index_f b < length_f b")
      case True
      with ps st mode_array have "return_if_ec (read_item n E ?inc) = Some (ret, p1)"
        by (simp add: parse_step_def)
      then show ?thesis
        by (rule step_child [OF _ assms(2,3)])
           (use True in \<open>simp_all add: abs_stack_set_back [OF st] ab abs_frame_def mode_array child_array\<close>)
    next
      case False
      with ps st mode_array have r: "ret = False" "p1 = end_array E p"
        by (auto simp: parse_step_def)
      have "inv (end_array E p)"
        by (rule inv_end_step [OF assms(2,3) st, where e = End_array])
           (use False in \<open>simp_all add: mode_array ab abs_frame_def st\<close>)
      with r show ?thesis by simp
    qed
  next
    case mode_indefinite_array
    show ?thesis
    proof (cases "source_peek (source_m p)")
      case None
      with ps st mode_indefinite_array show ?thesis
        by (auto simp: parse_step_def set_error_def)
    next
      case (Some c)
      show ?thesis
      proof (cases "c = 0xFF")
        case True
        with ps st mode_indefinite_array Some
        have r: "ret = (ec (end_array E (ignore1 p)) \<noteq> None)" "p1 = end_array E (ignore1 p)"
          by (auto simp: parse_step_def return_if_ec_def)
        have "inv (end_array E (ignore1 p))"
          by (rule inv_end_step [OF assms(2,3) st, where e = End_array])
             (simp_all add: mode_indefinite_array ab abs_frame_def st)
        with r show ?thesis by simp
      next
        case False
        with ps st mode_indefinite_array Some
        have "return_if_ec (read_item n E p) = Some (ret, p1)"
          by (simp add: parse_step_def)
        then show ?thesis
          by (rule step_child [OF _ assms(2,3)])
             (simp_all add: ab abs_frame_def mode_indefinite_array)
      qed
    qed
  next
    case mode_map_key
    show ?thesis
    proof (cases "index_f b < length_f b")
      case True
      with ps st mode_map_key have
        "(case read_name nested n E ?inc of None \<Rightarrow> None
          | Some q \<Rightarrow> if ec q \<noteq> None then Some (True, q) else Some (False, set_mode mode_map_value q))
         = Some (ret, p1)"
        by (simp add: parse_step_def)
      then show ?thesis
        by (rule step_key [OF _ assms(2,3) inc(1,2,3)])
           (use True in \<open>simp_all add: ab abs_frame_def mode_map_key track_map_key del: track.simps\<close>)
    next
      case False
      with ps st mode_map_key have r: "ret = False" "p1 = end_object E p"
        by (auto simp: parse_step_def)
      have "inv (end_object E p)"
        by (rule inv_end_step [OF assms(2,3) st, where e = End_object])
           (use False in \<open>simp_all add: mode_map_key ab abs_frame_def st\<close>)
      with r show ?thesis by simp
    qed
  next
    case mode_map_value
    with ps st have "return_if_ec (read_item n E (set_mode mode_map_key p)) = Some (ret, p1)"
      by (simp add: parse_step_def)
    then show ?thesis
      by (rule step_child [OF _ assms(2,3)])
         (simp_all add: sm ab abs_frame_def mode_map_value)
  next
    case mode_indefinite_map_key
    show ?thesis
    proof (cases "source_peek (source_m p)")
      case None
      with ps st mode_indefinite_map_key show ?thesis
        by (auto simp: parse_step_def set_error_def)
    next
      case (Some c)
      show ?thesis
      proof (cases "c = 0xFF")
        case True
        with ps st mode_indefinite_map_key Some
        have r: "ret = (ec (end_object E (ignore1 p)) \<noteq> None)" "p1 = end_object E (ignore1 p)"
          by (auto simp: parse_step_def return_if_ec_def)
        have "inv (end_object E (ignore1 p))"
          by (rule inv_end_step [OF assms(2,3) st, where e = End_object])
             (simp_all add: mode_indefinite_map_key ab abs_frame_def st)
        with r show ?thesis by simp
      next
        case False
        with ps st mode_indefinite_map_key Some have
          "(case read_name nested n E p of None \<Rightarrow> None
            | Some q \<Rightarrow> if ec q \<noteq> None then Some (True, q)
                        else Some (False, set_mode mode_indefinite_map_value q))
           = Some (ret, p1)"
          by (simp add: parse_step_def)
        then show ?thesis
          by (rule step_key [OF _ assms(2,3) _ _ st])
             (simp_all add: ab abs_frame_def mode_indefinite_map_key)
      qed
    qed
  next
    case mode_indefinite_map_value
    with ps st have
      "return_if_ec (read_item n E (set_mode mode_indefinite_map_key p)) = Some (ret, p1)"
      by (simp add: parse_step_def)
    then show ?thesis
      by (rule step_child [OF _ assms(2,3)])
         (simp_all add: sm ab abs_frame_def mode_indefinite_map_value)
  next
    case mode_multi_dim
    show ?thesis
    proof (cases "index_f b = 0")
      case True
      with ps st mode_multi_dim have "return_if_ec (read_item n E ?inc) = Some (ret, p1)"
        by (simp add: parse_step_def)
      then show ?thesis
        by (rule step_child [OF _ assms(2,3)])
           (use True in \<open>simp_all add: abs_stack_set_back [OF st] ab abs_frame_def mode_multi_dim\<close>)
    next
      case False
      with ps st mode_multi_dim have r: "ret = False" "p1 = produce_end_multi_dim E p"
        by (auto simp: parse_step_def)
      have "inv (produce_end_multi_dim E p)"
        by (rule inv_end_step [OF assms(2,3) st, where e = End_multi_dim])
           (use False in \<open>simp_all add: mode_multi_dim ab abs_frame_def st\<close>)
      with r show ?thesis by simp
    qed
  qed
qed

lemma parse_inv:
  "parse n E p = Some q \<Longrightarrow> inv p \<Longrightarrow> ec q = None \<Longrightarrow> inv q"
proof (induction n arbitrary: E p)
  case 0
  then show ?case by simp
next
  case (Suc n)
  show ?case
  proof (cases "\<not> done_m p \<and> more_m p")
    case False
    with Suc.prems show ?thesis by auto
  next
    case True
    with Suc.prems(1) obtain ret p1 where
      ps: "parse_step (parse n (encoder_env E)) n E p = Some (ret, p1)"
      by (cases "parse_step (parse n (encoder_env E)) n E p") auto
    from parse_step_inv [OF ps Suc.prems(2)] True
    have post: "ret \<longrightarrow> ec p1 \<noteq> None" "\<not> ret \<longrightarrow> inv p1" by auto
    show ?thesis
    proof (cases ret)
      case True
      with Suc.prems(1) ps \<open>\<not> done_m p \<and> more_m p\<close> have "q = p1" by simp
      with post True Suc.prems(3) show ?thesis by simp
    next
      case False
      with Suc.prems(1) ps \<open>\<not> done_m p \<and> more_m p\<close> have "parse n E p1 = Some q" by simp
      from Suc.IH [OF this] post False Suc.prems(3) show ?thesis by simp
    qed
  qed
qed

lemma inv_make_parser: "inv (make_parser src d)"
  by (simp add: inv_def make_parser_def tracks_def abs_stack_def abs_frame_def mk_parse_state_def)

section \<open>The check accepts the grammar of items\<close>






lemma items_ex_step: "items m xs \<Longrightarrow> item x \<Longrightarrow> \<exists>m. items m (xs @ x)"
  by (blast intro: more_items)

lemma pairs_ex_step: "pairs m ys \<Longrightarrow> item x \<Longrightarrow> \<exists>m. pairs m (ys @ Key key # x)"
  by (blast intro: more_pairs)




















section \<open>Counting the children of definite containers\<close>

lemma sample_env_simps [simp]:
  "visit sample_env evs e = True"
  "validate sample_env = utf8_valid"
  "encode_base64url sample_env = base64url"
  "visit (encoder_env sample_env) evs e = True"
  by (simp_all add: sample_env_def encoder_env_def)



lemma tracks_rejects_miscounted:
  "tracks [Begin_array (Some 2) tag_none, Uint64_value 1 tag_none, End_array, Flush] = None"
  "tracks [Begin_array (Some 1) tag_none, Uint64_value 1 tag_none, Uint64_value 2 tag_none,
           End_array, Flush] = None"
  "tracks [Begin_object (Some 1) tag_none, Key k, End_object, Flush] = None"
  "tracks [Begin_object (Some 1) tag_none, Uint64_value 1 tag_none, Uint64_value 2 tag_none,
           End_object, Flush] = None"
  by (simp_all add: tracks_def numeral_2_eq_2)

section \<open>Pending tags after an item\<close>

text \<open>
  C8. The claim: after a top-level item that parses without error none of the three
  pending-tag flags is set. \<open>read_item\<close> clears the \<open>item_tag\<close> flag after every item, but
  the stringref flag only where an unsigned integer is read under an open stringref table,
  and the namespace flag only where an array or a map begins: tag 25 before the integer 1
  outside a namespace (\<open>D8 19 01\<close>) and tag 256 before the integer 1 (\<open>D9 01 00 01\<close>) both
  parse without error and leave their flag set when the parser is done.
\<close>

theorem C8_pending_flags_survive_item:
  "parse (Suc (Suc (Suc (Suc 0)))) sample_env
     (make_parser (mk_source [0xD8, 0x19, 0x01]) default_max_nesting_depth)
   = Some \<lparr>stringref_tag = True, stringref_namespace_tag = False, item_tag = False,
            source_m = \<lparr>data = [], eof_m = False\<rparr>, max_nesting_depth = 1024,
            more_m = False, done_m = True, text_buffer_m = [], bytes_buffer_m = [],
            item_tag_m = 0, state_stack_m = [], typed_array_m = [], shape_m = [],
            stringref_map_stack_m = [], nesting_depth_m = 0, ec = None,
            events = [Uint64_value 1 tag_none, Flush]\<rparr>
   \<and> parse (Suc (Suc (Suc (Suc 0)))) sample_env
     (make_parser (mk_source [0xD9, 0x01, 0x00, 0x01]) default_max_nesting_depth)
   = Some \<lparr>stringref_tag = False, stringref_namespace_tag = True, item_tag = False,
            source_m = \<lparr>data = [], eof_m = False\<rparr>, max_nesting_depth = 1024,
            more_m = False, done_m = True, text_buffer_m = [], bytes_buffer_m = [],
            item_tag_m = 0, state_stack_m = [], typed_array_m = [], shape_m = [],
            stringref_map_stack_m = [], nesting_depth_m = 0, ec = None,
            events = [Uint64_value 1 tag_none, Flush]\<rparr>"
  by (simp add: eval_defs big_to_native_def)

text \<open>
  A flag that is left pending is taken up by a later item: in the array
  \<open>D9 01 00 83 63 66 6F 6F D8 19 F6 00\<close> tag 25 stands before \<open>null\<close>, and the untagged
  integer 0 that follows is delivered as the stored string.
\<close>

lemma stale_stringref_flag_reads_integer_as_reference:
  "\<exists>p. parse (Suc (Suc (Suc (Suc (Suc (Suc (Suc 0))))))) sample_env
          (make_parser (mk_source [0xD9, 0x01, 0x00, 0x83, 0x63, 0x66, 0x6F, 0x6F, 0xD8, 0x19, 0xF6, 0x00])
             default_max_nesting_depth) = Some p
       \<and> ec p = None \<and> done_m p
       \<and> events p = [Begin_array (Some 3) tag_none, String_value (ascii ''foo'') tag_none,
                      Null_value tag_none, String_value (ascii ''foo'') tag_none, End_array, Flush]"
  by (simp add: eval_defs big_to_native_def ascii_def)

text \<open>The part of the claim that holds: the \<open>item_tag\<close> flag is clear when the parser is done.\<close>

lemma item_tag_clear_when_done:
  assumes "parse n E (make_parser src d) = Some p" and "ec p = None" and "done_m p"
  shows "\<not> item_tag p"
proof -
  have "inv p" using assms(1) inv_make_parser assms(2) by (rule parse_inv)
  with assms(3) show ?thesis by (auto simp: inv_def)
qed

lemma item_tag_clear_when_done_example:
  "\<exists>p. parse (Suc (Suc (Suc (Suc 0)))) sample_env
          (make_parser (mk_source [0xC1, 0x1A, 0x5D, 0x2D, 0xA3, 0x7B]) default_max_nesting_depth)
          = Some p
       \<and> ec p = None \<and> done_m p
       \<and> events p = [Uint64_value 0x5D2DA37B tag_timestamp, Flush]
       \<and> \<not> item_tag p"
proof -
  have "\<exists>p. parse (Suc (Suc (Suc (Suc 0)))) sample_env
          (make_parser (mk_source [0xC1, 0x1A, 0x5D, 0x2D, 0xA3, 0x7B]) default_max_nesting_depth)
          = Some p
       \<and> ec p = None \<and> done_m p
       \<and> events p = [Uint64_value 0x5D2DA37B tag_timestamp, Flush]"
    by (simp add: eval_defs big_to_native_def)
  then obtain p where p: "parse (Suc (Suc (Suc (Suc 0)))) sample_env
          (make_parser (mk_source [0xC1, 0x1A, 0x5D, 0x2D, 0xA3, 0x7B]) default_max_nesting_depth)
          = Some p" "ec p = None" "done_m p"
       "events p = [Uint64_value 0x5D2DA37B tag_timestamp, Flush]"
    by blast
  from item_tag_clear_when_done [OF p(1,2,3)] p show ?thesis by blast
qed

section \<open>Reset\<close>

text \<open>
  C9. The claim: \<open>reset()\<close> followed by \<open>parse\<close> delivers what a new parser delivers for
  the same bytes. \<open>reset\<close> restores \<open>state_stack_\<close>, \<open>more_\<close> and \<open>done_\<close> to what the
  constructor sets and leaves \<open>other_tags_\<close>, \<open>stringref_map_stack_\<close> and
  \<open>nesting_depth_\<close> as they are. After the item \<open>D9 01 00 01\<close> the namespace flag is
  pending; after \<open>reset()\<close> the array \<open>82 43 61 61 61 D8 19 00\<close> that follows in the source
  opens a stringref table and its second element is delivered as the first byte string
  again, where a new parser delivers the integer 0.
\<close>

theorem C9_reset_keeps_pending_namespace:
  "\<exists>p q f.
      parse (Suc (Suc (Suc (Suc n)))) (continuing E)
        (make_parser (mk_source ([0xD9, 0x01, 0x00, 0x01] @ [0x82, 0x43, 0x61, 0x61, 0x61, 0xD8, 0x19, 0x00]))
           default_max_nesting_depth) = Some p
    \<and> ec p = None \<and> done_m p \<and> events p = [Uint64_value 1 tag_none, Flush]
    \<and> data (source_m p) = [0x82, 0x43, 0x61, 0x61, 0x61, 0xD8, 0x19, 0x00]
    \<and> parse (Suc (Suc (Suc (Suc (Suc (Suc (Suc n))))))) (continuing E) (reset p) = Some q
    \<and> ec q = None \<and> done_m q
    \<and> events q = events p @ [Begin_array (Some 2) tag_none, Byte_string_value [0x61, 0x61, 0x61] tag_none,
                   Byte_string_value [0x61, 0x61, 0x61] tag_none, End_array, Flush]
    \<and> parse (Suc (Suc (Suc (Suc (Suc (Suc (Suc n))))))) (continuing E)
        (make_parser (mk_source [0x82, 0x43, 0x61, 0x61, 0x61, 0xD8, 0x19, 0x00])
           default_max_nesting_depth) = Some f
    \<and> ec f = None \<and> done_m f
    \<and> events f = [Begin_array (Some 2) tag_none, Byte_string_value [0x61, 0x61, 0x61] tag_none,
                   Uint64_value 0 tag_none, End_array, Flush]"
  by (simp add: eval_defs big_to_native_def)

section \<open>Reading well-formed input\<close>

text \<open>
  What the readers of heads, tags and strings return on input that is all there: the
  argument, the tags recorded, the assembled bytes, no error, and the source moved to the
  byte after.
\<close>

lemma get_uint64_value_head:
  assumes "\<not> eof_m (source_m p)" and "data (source_m p) = c # arg @ rest"
    and "arg_length c = Some (length arg)"
  shows "get_uint64_value E p = (argument c arg, at rest p)"
proof -
  let ?info = "c AND 0x1F"
  consider (a) "?info \<le> 0x17" "arg = []"
    | (b) "?info = 0x18" "length arg = 1"
    | (c) "?info = 0x19" "length arg = 2"
    | (d) "?info = 0x1A" "length arg = 4"
    | (e) "?info = 0x1B" "length arg = 8"
    using assms(3) by (auto simp: arg_length_def Let_def split: if_splits)
  then show ?thesis
  proof cases
    case a
    with assms(1,2) show ?thesis
      by (simp add: get_uint64_value_def source_get_def get_additional_information_value_def
            argument_def at_def)
  next
    case b
    then obtain x where "arg = [x]" by (cases arg) auto
    with b assms(1,2) show ?thesis
      by (simp add: get_uint64_value_def source_get_def get_additional_information_value_def
            argument_def at_def big_to_native_def)
  next
    case c
    with assms(1,2) show ?thesis
      by (simp add: get_uint64_value_def source_get_def get_additional_information_value_def
            argument_def at_def read_buf_def source_read_def)
  next
    case d
    with assms(1,2) show ?thesis
      by (simp add: get_uint64_value_def source_get_def get_additional_information_value_def
            argument_def at_def read_buf_def source_read_def)
  next
    case e
    with assms(1,2) show ?thesis
      by (simp add: get_uint64_value_def source_get_def get_additional_information_value_def
            argument_def at_def read_buf_def source_read_def)
  qed
qed

lemma get_size_head:
  assumes "\<not> eof_m (source_m p)" and "data (source_m p) = c # arg @ rest"
    and "arg_length c = Some (length arg)" and "ec p = None"
  shows "get_size E p = (unat (argument c arg), at rest p)"
  using get_uint64_value_head [OF assms(1-3), of E] assms(4)
  by (simp add: get_size_def at_def)

lemma at_fields [simp]:
  "ec (at bs p) = ec p" "events (at bs p) = events p" "state_stack_m (at bs p) = state_stack_m p"
  "done_m (at bs p) = done_m p" "more_m (at bs p) = more_m p"
  "stringref_map_stack_m (at bs p) = stringref_map_stack_m p"
  "stringref_tag (at bs p) = stringref_tag p" "item_tag (at bs p) = item_tag p"
  "item_tag_m (at bs p) = item_tag_m p" "text_buffer_m (at bs p) = text_buffer_m p"
  "data (source_m (at bs p)) = bs" "eof_m (source_m (at bs p)) = eof_m (source_m p)"
  "at bs (at bs' p) = at bs p"
  by (simp_all add: at_def)

lemma record_tag_fields [simp]:
  "ec (record_tag v p) = ec p" "events (record_tag v p) = events p"
  "state_stack_m (record_tag v p) = state_stack_m p" "done_m (record_tag v p) = done_m p"
  "more_m (record_tag v p) = more_m p"
  "stringref_map_stack_m (record_tag v p) = stringref_map_stack_m p"
  "source_m (record_tag v p) = source_m p" "text_buffer_m (record_tag v p) = text_buffer_m p"
  by (simp_all add: record_tag_def)

lemma record_tag_at [simp]: "record_tag v (at bs p) = at bs (record_tag v p)"
  by (simp add: record_tag_def at_def)

lemma tagged_fields [simp]:
  "ec (tagged vals p) = ec p" "events (tagged vals p) = events p"
  "state_stack_m (tagged vals p) = state_stack_m p" "done_m (tagged vals p) = done_m p"
  "more_m (tagged vals p) = more_m p"
  "stringref_map_stack_m (tagged vals p) = stringref_map_stack_m p"
  "source_m (tagged vals p) = source_m p" "text_buffer_m (tagged vals p) = text_buffer_m p"
  by (induction vals arbitrary: p; simp add: tagged_def)+

lemma tagged_Cons: "tagged (v # vals) p = tagged vals (record_tag v p)"
  by (simp add: tagged_def)

lemma tagged_at [simp]: "tagged vals (at bs p) = at bs (tagged vals p)"
  by (induction vals arbitrary: p) (simp_all add: tagged_def)

lemma not_item_tags [simp]: "25 \<notin> set item_tags" "256 \<notin> set item_tags"
  by (simp_all add: item_tags_def)

lemma tagged_stringref_tag: "stringref_tag (tagged vals p) = stringref_pending p vals"
proof (induction vals arbitrary: p)
  case Nil
  show ?case by (simp add: tagged_def stringref_pending_def)
next
  case (Cons v vals)
  show ?case
    unfolding tagged_Cons Cons.IH
    by (auto simp: stringref_pending_def record_tag_def)
qed

lemma pending_item_tag_Cons:
  "pending_item_tag (record_tag v p) vals = pending_item_tag p (v # vals)"
  by (cases "v \<in> set item_tags")
     (auto simp: pending_item_tag_def record_tag_def split: list.splits)

lemma tagged_item_tag:
  "item_tag (tagged vals p) = (pending_item_tag p vals \<noteq> None)"
  "pending_item_tag p vals = Some t \<Longrightarrow> item_tag_m (tagged vals p) = t"
proof (induction vals arbitrary: p)
  case Nil
  {
    case 1
    show ?case by (simp add: tagged_def pending_item_tag_def)
  next
    case 2
    then show ?case by (simp add: tagged_def pending_item_tag_def split: if_splits)
  }
next
  case (Cons v vals)
  {
    case 1
    show ?case unfolding tagged_Cons Cons.IH(1) pending_item_tag_Cons ..
  next
    case 2
    then show ?case unfolding tagged_Cons
      by (intro Cons.IH(2)) (simp add: pending_item_tag_Cons)
  }
qed

lemma wire_tags_Cons: "wire_tags (h # tags) = fst h # snd h @ wire_tags tags"
  by (simp add: wire_tags_def head_wire_def)

lemma read_tags_heads:
  assumes "\<not> eof_m (source_m p)" and "ec p = None"
    and "data (source_m p) = wire_tags tags @ c # rest"
    and "list_all is_tag tags" and "get_major_type c \<noteq> mt_semantic_tag"
    and "length tags < n"
  shows "read_tags n E p = Some (at (c # rest) (tagged (map tag_value tags) p))"
  using assms
proof (induction tags arbitrary: p n)
  case Nil
  then obtain m where n: "n = Suc m" by (cases n) auto
  have "at (c # rest) p = p" using Nil.prems(3) by (simp add: at_def wire_tags_def)
  with Nil.prems show ?case
    by (simp add: n source_peek_def wire_tags_def tagged_def)
next
  case (Cons h tags)
  then obtain m where n: "n = Suc m" and m: "length tags < m" by (cases n) auto
  from Cons.prems(4) have ht: "is_tag h" and tags: "list_all is_tag tags"
    by simp_all
  from ht have h: "get_major_type (fst h) = mt_semantic_tag"
    "arg_length (fst h) = Some (length (snd h))"
    by (simp_all add: is_tag_def complete_def)
  have d: "data (source_m p) = fst h # snd h @ (wire_tags tags @ c # rest)"
    using Cons.prems(3) by (simp add: wire_tags_Cons)
  have g: "get_uint64_value E p = (tag_value h, at (wire_tags tags @ c # rest) p)"
    using get_uint64_value_head [OF Cons.prems(1) d h(2)] by (simp add: tag_value_def)
  let ?q = "record_tag (tag_value h) (at (wire_tags tags @ c # rest) p)"
  have "read_tags m E ?q = Some (at (c # rest) (tagged (map tag_value tags) ?q))"
    using Cons.prems(1,2) tags Cons.prems(5) m
    by (intro Cons.IH) simp_all
  then show ?case
    using d h(1) g Cons.prems(2)
    by (simp add: n source_peek_def tagged_Cons)
qed

lemma chunk_simps [simp]:
  "chunk_wire (c, arg, bs) = c # arg @ bs" "chunk_payload (c, arg, bs) = bs"
  by (simp_all add: chunk_wire_def chunk_payload_def)

lemma arg_length_info: "arg_length c = Some k \<Longrightarrow> get_additional_information_value c \<noteq> 0x1F"
  by (auto simp: arg_length_def get_additional_information_value_def Let_def split: if_splits)

lemma break_major_type [simp]: "get_major_type 0xFF = mt_simple"
  by (simp add: get_major_type_def major_type_of_def)

lemma iterate_definite:
  assumes "is_string_type mt" and "chunk_ok mt (c, arg, bs)"
    and "\<not> eof_m (source_m p)" and "ec p = None"
    and "data (source_m p) = c # arg @ bs @ rest"
  shows "iterate_string_chunks (Suc n) E acc p
           = Some (acc @ bs, True, (at rest p)\<lparr>more_m := True\<rparr>)"
proof -
  from assms(2) have c: "get_major_type c = mt" "arg_length c = Some (length arg)"
    "length bs = unat (argument c arg)"
    by (simp_all add: chunk_ok_def)
  have g: "get_size E p = (length bs, at (bs @ rest) p)"
    using get_size_head [OF assms(3) assms(5) c(2) assms(4), of E] c(3) by simp
  from assms(1) c(1) have "get_major_type c = mt_text_string \<or> get_major_type c = mt_byte_string"
    by (simp add: is_string_type_def)
  with g assms(4,5) arg_length_info [OF c(2)] show ?thesis
    by (auto simp: source_peek_def source_read_def at_def)
qed

lemma chunks_loop_chunks:
  assumes "is_string_type mt" and "list_all (chunk_ok mt) chunks"
    and "\<not> eof_m (source_m p)" and "ec p = None"
    and "data (source_m p) = concat (map chunk_wire chunks) @ 0xFF # rest"
    and "length chunks < n"
  shows "\<exists>m. chunks_loop n E acc p
           = Some (acc @ concat (map chunk_payload chunks), True, (at rest p)\<lparr>more_m := m\<rparr>)"
  using assms(2-)
proof (induction chunks arbitrary: p acc n)
  case Nil
  then obtain k where n: "n = Suc k" by (cases n) auto
  have "chunks_loop n E acc p = Some (acc, True, (at rest p)\<lparr>more_m := more_m p\<rparr>)"
    using Nil.prems by (simp add: n source_peek_def source_ignore_def source_read_def at_def)
  then show ?case by auto
next
  case (Cons ch chunks)
  obtain c arg bs where ch: "ch = (c, arg, bs)" by (cases ch) auto
  from Cons.prems(5) obtain k where n: "n = Suc (Suc k)" and k: "length chunks < Suc k"
    by (cases n; cases "n - 1") auto
  from Cons.prems(1) have ok: "chunk_ok mt (c, arg, bs)" and oks: "list_all (chunk_ok mt) chunks"
    by (simp_all add: ch)
  have d: "data (source_m p) = c # arg @ bs @ (concat (map chunk_wire chunks) @ 0xFF # rest)"
    using Cons.prems(4) by (simp add: ch)
  let ?q = "(at (concat (map chunk_wire chunks) @ 0xFF # rest) p)\<lparr>more_m := True\<rparr>"
  have it: "iterate_string_chunks (Suc k) E acc p = Some (acc @ bs, True, ?q)"
    using assms(1) ok Cons.prems(2,3) d by (rule iterate_definite)
  have "c \<noteq> 0xFF"
    using ok assms(1) by (auto simp: chunk_ok_def is_string_type_def)
  moreover obtain m where
    "chunks_loop (Suc k) E (acc @ bs) ?q
       = Some ((acc @ bs) @ concat (map chunk_payload chunks), True, (at rest ?q)\<lparr>more_m := m\<rparr>)"
    using Cons.IH [of ?q "Suc k" "acc @ bs"] oks Cons.prems(2,3) k by (auto simp: at_def)
  ultimately have "chunks_loop n E acc p
       = Some (acc @ concat (map chunk_payload (ch # chunks)), True, (at rest p)\<lparr>more_m := m\<rparr>)"
    using d it Cons.prems(3)
    by (simp add: n source_peek_def ch at_def)
  then show ?case by blast
qed

lemma iterate_encoded_string:
  assumes "is_string_type mt" and "well_formed mt x"
    and "\<not> eof_m (source_m p)" and "ec p = None"
    and "data (source_m p) = wire x @ rest"
    and "rounds x < n"
  shows "\<exists>m. iterate_string_chunks n E acc p
           = Some (acc @ assembled x, True, (at rest p)\<lparr>more_m := m\<rparr>)"
proof (cases x)
  case (Definite ch)
  obtain c arg bs where ch: "ch = (c, arg, bs)" by (cases ch) auto
  from assms(6) obtain k where n: "n = Suc k" by (cases n) auto
  have "iterate_string_chunks (Suc k) E acc p = Some (acc @ bs, True, (at rest p)\<lparr>more_m := True\<rparr>)"
    using assms(1-5) by (intro iterate_definite) (simp_all add: Definite ch)
  then show ?thesis by (auto simp: n Definite ch)
next
  case (Indefinite c chunks)
  from assms(6) obtain k where n: "n = Suc k" and k: "length chunks < k"
    by (cases n) (auto simp: Indefinite)
  from assms(2) have c: "get_major_type c = mt" "get_additional_information_value c = 0x1F"
    and oks: "list_all (chunk_ok mt) chunks"
    by (simp_all add: Indefinite get_additional_information_value_def)
  let ?q = "p\<lparr>source_m := source_ignore (source_m p) (Suc 0)\<rparr>"
  have d: "data (source_m p) = c # concat (map chunk_wire chunks) @ 0xFF # rest"
    using assms(5) by (simp add: Indefinite)
  then have q: "?q = at (concat (map chunk_wire chunks) @ 0xFF # rest) p"
    by (simp add: source_ignore_def source_read_def at_def)
  have "\<exists>m. chunks_loop k E acc (at (concat (map chunk_wire chunks) @ 0xFF # rest) p)
       = Some (acc @ concat (map chunk_payload chunks), True,
               (at rest (at (concat (map chunk_wire chunks) @ 0xFF # rest) p))\<lparr>more_m := m\<rparr>)"
    using assms(3,4) k by (intro chunks_loop_chunks [OF assms(1) oks]) simp_all
  then obtain m where
    "chunks_loop k E acc ?q
       = Some (acc @ concat (map chunk_payload chunks), True, (at rest p)\<lparr>more_m := m\<rparr>)"
    by (auto simp: q)
  moreover have "get_major_type c = mt_text_string \<or> get_major_type c = mt_byte_string"
    using assms(1) c(1) by (simp add: is_string_type_def)
  ultimately have "iterate_string_chunks n E acc p
       = Some (acc @ assembled x, True, (at rest p)\<lparr>more_m := m\<rparr>)"
    using d c(2)
    by (auto simp: n source_peek_def Indefinite)
  then show ?thesis by blast
qed

lemma wire_first:
  assumes "well_formed mt x"
  shows "\<exists>c tl. wire x = c # tl \<and> get_major_type c = mt"
proof (cases x)
  case (Definite ch)
  with assms show ?thesis by (cases ch) (simp add: chunk_ok_def)
next
  case (Indefinite c chunks)
  with assms show ?thesis by simp
qed

lemma stringref_push_fields [simp]:
  "ec (stringref_push e p) = ec p" "text_buffer_m (stringref_push e p) = text_buffer_m p"
  "source_m (stringref_push e p) = source_m p"
  by (simp_all add: stringref_push_def split: list.splits)

lemma read_text_string_encoded:
  assumes "well_formed mt_text_string x"
    and "\<not> eof_m (source_m p)" and "ec p = None"
    and "data (source_m p) = wire x @ rest"
    and "rounds x < n"
  shows "\<exists>q. read_text_string n E p = Some q \<and> ec q = None
           \<and> text_buffer_m q = text_buffer_m p @ assembled x"
proof -
  from wire_first [OF assms(1)] obtain c tl where
    c: "wire x = c # tl" "get_major_type c = mt_text_string" by blast
  have st: "is_string_type mt_text_string" by (simp add: is_string_type_def)
  from iterate_encoded_string [OF st assms, of E "text_buffer_m p"] obtain m where
    "iterate_string_chunks n E (text_buffer_m p) p
       = Some (text_buffer_m p @ assembled x, True, (at rest p)\<lparr>more_m := m\<rparr>)"
    by blast
  with c assms(3,4) show ?thesis
    by (simp add: read_text_string_def source_peek_def Let_def)
qed


lemma after_tags:
  assumes "\<not> eof_m (source_m p)" and "ec p = None"
    and "data (source_m p) = wire_tags tags @ c # rest"
    and "list_all is_tag tags" and "get_major_type c \<noteq> mt_semantic_tag"
    and "length tags < n"
  shows "\<exists>p1. read_tags n E p = Some p1 \<and> ec p1 = None \<and> \<not> eof_m (source_m p1)
           \<and> data (source_m p1) = c # rest \<and> source_peek (source_m p1) = Some c
           \<and> events p1 = events p
           \<and> stringref_map_stack_m p1 = stringref_map_stack_m p
           \<and> stringref_tag p1 = stringref_pending p (map tag_value tags)
           \<and> item_tag p1 = (pending_item_tag p (map tag_value tags) \<noteq> None)
           \<and> (\<forall>t. pending_item_tag p (map tag_value tags) = Some t \<longrightarrow> item_tag_m p1 = t)"
  using read_tags_heads [OF assms] assms(1,2)
  by (simp add: source_peek_def tagged_stringref_tag tagged_item_tag)

lemma read_invalid_text:
  assumes "\<not> eof_m (source_m p)" and "ec p = None"
    and "data (source_m p) = wire_tags tags @ wire x @ rest"
    and "list_all is_tag tags" and "well_formed mt_text_string x"
    and "\<not> validate E (assembled x)"
    and "length tags < n" and "rounds x < n"
  shows "\<exists>r. read_item n E p = Some r \<and> read_name nested n E p = Some r
           \<and> ec r = Some invalid_utf8_text_string \<and> stopped r \<and> events r = events p"
proof -
  from wire_first [OF assms(5)] obtain c tl where
    c: "wire x = c # tl" "get_major_type c = mt_text_string" by blast
  from after_tags [of p tags c "tl @ rest" n E] assms(1-4,7) c obtain p1 where
    p1: "read_tags n E p = Some p1" "ec p1 = None" "\<not> eof_m (source_m p1)"
      "data (source_m p1) = wire x @ rest" "source_peek (source_m p1) = Some c"
    by auto
  from read_text_string_encoded [OF assms(5), of "p1\<lparr>text_buffer_m := []\<rparr>" rest n E]
       p1(2,3,4) assms(8)
  obtain p2 where p2: "read_text_string n E (p1\<lparr>text_buffer_m := []\<rparr>) = Some p2"
    "ec p2 = None" "text_buffer_m p2 = assembled x"
    by auto
  have "quiet p p1" using p1(1) by (rule quiet_read_tags)
  moreover have "quiet p1 p2" using quiet_read_text_string [OF p2(1)] by simp
  ultimately have ev: "events p2 = events p" by (simp add: quiet_def)
  let ?r = "set_error invalid_utf8_text_string p2"
  have "read_item n E p = Some ?r"
    using p1 c(2) p2 assms(6) by (simp add: read_item_def read_item_text_string_def)
  moreover have "read_name nested n E p = Some ?r"
    using p1 c(2) p2 assms(6) by (simp add: read_name_def)
  moreover have "ec ?r = Some invalid_utf8_text_string" "stopped ?r" "events ?r = events p"
    using ev by (simp_all add: set_error_def stopped_def)
  ultimately show ?thesis by blast
qed


section \<open>The spec's rules and the callbacks of the code\<close>






section \<open>One round of the driver\<close>

lemma same_stack: "state_stack_m p = st \<Longrightarrow> p\<lparr>state_stack_m := st\<rparr> = p"
  by auto

lemma parse_item_due:
  assumes "item_due p"
  shows "\<exists>st. parse (Suc n) E p
           = (case read_item n E (p\<lparr>state_stack_m := st\<rparr>) of
                None \<Rightarrow> None
              | Some r \<Rightarrow> if ec r \<noteq> None then Some r else parse n E r)"
proof -
  from assms obtain fr rest where st: "state_stack_m p = fr # rest"
    by (auto simp: item_due_def split: list.splits)
  from assms have run: "\<not> done_m p" "more_m p" by (simp_all add: item_due_def)
  have "\<exists>st. parse_step (parse n (encoder_env E)) n E p
               = return_if_ec (read_item n E (p\<lparr>state_stack_m := st\<rparr>))"
  proof (cases "mode fr")
    case mode_indefinite_array
    with assms st show ?thesis
      by (intro exI [of _ "fr # rest"])
         (auto simp: item_due_def parse_step_def same_stack)
  next
    case mode_indefinite_map_value
    with assms st show ?thesis
      by (auto simp: item_due_def parse_step_def set_mode_def)
  next
    case mode_map_value
    with assms st show ?thesis
      by (auto simp: item_due_def parse_step_def set_mode_def)
  next
    case mode_root
    with assms st show ?thesis
      by (auto simp: item_due_def parse_step_def set_mode_def)
  next
    case mode_array
    with assms st show ?thesis
      by (auto simp: item_due_def parse_step_def set_back_def)
  next
    case mode_multi_dim
    with assms st show ?thesis
      by (auto simp: item_due_def parse_step_def set_back_def)
  qed (use assms st in \<open>simp_all add: item_due_def\<close>)
  then obtain st' where "parse_step (parse n (encoder_env E)) n E p
               = return_if_ec (read_item n E (p\<lparr>state_stack_m := st'\<rparr>))"
    by blast
  with run have "parse (Suc n) E p
           = (case read_item n E (p\<lparr>state_stack_m := st'\<rparr>) of
                None \<Rightarrow> None
              | Some r \<Rightarrow> if ec r \<noteq> None then Some r else parse n E r)"
    by (simp add: return_if_ec_def split: option.splits)
  then show ?thesis by blast
qed

lemma parse_key_due:
  assumes "key_due p"
  shows "\<exists>st m. parse (Suc n) E p
           = (case read_name (parse n (encoder_env E)) n E (p\<lparr>state_stack_m := st\<rparr>) of
                None \<Rightarrow> None
              | Some r \<Rightarrow> if ec r \<noteq> None then Some r else parse n E (set_mode m r))"
proof -
  from assms obtain fr rest where st: "state_stack_m p = fr # rest"
    by (auto simp: key_due_def split: list.splits)
  from assms have run: "\<not> done_m p" "more_m p" by (simp_all add: key_due_def)
  have "\<exists>st m. parse_step (parse n (encoder_env E)) n E p
               = (case read_name (parse n (encoder_env E)) n E (p\<lparr>state_stack_m := st\<rparr>) of
                    None \<Rightarrow> None
                  | Some r \<Rightarrow> if ec r \<noteq> None then Some (True, r)
                              else Some (False, set_mode m r))"
  proof (cases "mode fr")
    case mode_indefinite_map_key
    with assms st show ?thesis
      by (intro exI [of _ "fr # rest"] exI [of _ mode_indefinite_map_value])
         (auto simp: key_due_def parse_step_def same_stack)
  next
    case mode_map_key
    with assms st show ?thesis
      by (intro exI [of _ "fr\<lparr>index_f := index_f fr + 1\<rparr> # rest"] exI [of _ mode_map_value])
         (auto simp: key_due_def parse_step_def set_back_def)
  qed (use assms st in \<open>simp_all add: key_due_def\<close>)
  then obtain st' m where "parse_step (parse n (encoder_env E)) n E p
               = (case read_name (parse n (encoder_env E)) n E (p\<lparr>state_stack_m := st'\<rparr>) of
                    None \<Rightarrow> None
                  | Some r \<Rightarrow> if ec r \<noteq> None then Some (True, r)
                              else Some (False, set_mode m r))"
    by blast
  with run have "parse (Suc n) E p
           = (case read_name (parse n (encoder_env E)) n E (p\<lparr>state_stack_m := st'\<rparr>) of
                None \<Rightarrow> None
              | Some r \<Rightarrow> if ec r \<noteq> None then Some r else parse n E (set_mode m r))"
    by (simp split: option.splits)
  then show ?thesis by blast
qed

lemma set_mode_keeps [simp]:
  "ec (set_mode m r) = ec r" "events (set_mode m r) = events r"
  "source_m (set_mode m r) = source_m r"
  by (simp_all add: set_mode_def split: list.splits)

lemma pending_stack [simp]:
  "pending_item_tag (p\<lparr>state_stack_m := st\<rparr>) vals = pending_item_tag p vals"
  "stringref_pending (p\<lparr>state_stack_m := st\<rparr>) vals = stringref_pending p vals"
  by (simp_all add: pending_item_tag_def stringref_pending_def split: list.splits)


lemma stack_fields [simp]:
  "eof_m (source_m (p\<lparr>state_stack_m := st\<rparr>)) = eof_m (source_m p)"
  by simp

section \<open>Invalid UTF-8\<close>

text \<open>
  C5. A text string whose assembled bytes are not valid UTF-8 is rejected with
  \<open>invalid_utf8_text_string\<close> and without a callback. Wherever the loop of \<open>parse\<close> is about
  to read an item or a key, with no error set and the source not at its end: if the input
  that remains is tags, then a well-formed text string, definite or in chunks, whose
  assembled bytes \<open>validate\<close> refuses, then \<open>parse\<close> returns in that round with
  \<open>invalid_utf8_text_string\<close>, with \<open>more_\<close> false and with the visitor's log as it was.
\<close>

theorem C5_invalid_utf8_text_rejected:
  assumes "item_due p \<or> key_due p"
    and "ec p = None" and "\<not> eof_m (source_m p)"
    and "data (source_m p) = wire_tags tags @ wire x @ rest"
    and "list_all is_tag tags" and "well_formed mt_text_string x"
    and "\<not> validate E (assembled x)"
    and "length tags < n" and "rounds x < n"
  shows "\<exists>r. parse (Suc n) E p = Some r \<and> ec r = Some invalid_utf8_text_string
           \<and> stopped r \<and> events r = events p"
proof -
  have rd: "\<exists>r. read_item n E (p\<lparr>state_stack_m := st\<rparr>) = Some r
               \<and> read_name nested n E (p\<lparr>state_stack_m := st\<rparr>) = Some r
               \<and> ec r = Some invalid_utf8_text_string \<and> stopped r \<and> events r = events p"
    for st nested
    using read_invalid_text [of "p\<lparr>state_stack_m := st\<rparr>" tags x rest E n nested] assms(2-)
    by simp
  from assms(1) show ?thesis
  proof
    assume "item_due p"
    from parse_item_due [OF this, of n E] obtain st where
      "parse (Suc n) E p
         = (case read_item n E (p\<lparr>state_stack_m := st\<rparr>) of
              None \<Rightarrow> None
            | Some r \<Rightarrow> if ec r \<noteq> None then Some r else parse n E r)"
      by blast
    with rd [of st "parse n (encoder_env E)"] show ?thesis by (auto simp del: parse.simps)
  next
    assume "key_due p"
    from parse_key_due [OF this, of n E] obtain st m where
      "parse (Suc n) E p
         = (case read_name (parse n (encoder_env E)) n E (p\<lparr>state_stack_m := st\<rparr>) of
              None \<Rightarrow> None
            | Some r \<Rightarrow> if ec r \<noteq> None then Some r else parse n E (set_mode m r))"
      by blast
    with rd [of st "parse n (encoder_env E)"] show ?thesis by (auto simp del: parse.simps)
  qed
qed

section \<open>Backreferences\<close>


section \<open>Byte-string keys\<close>


section \<open>Worked examples of the confirmed properties\<close>

lemma S9_bad_utf8:
  "\<exists>p. parse (Suc (Suc (Suc 0))) sample_env
          (make_parser (mk_source [0x62, 0xC3, 0x28]) default_max_nesting_depth) = Some p
       \<and> ec p = Some invalid_utf8_text_string \<and> stopped p \<and> events p = []"
  by (simp add: eval_defs continuation_def)

theorem C5_invalid_utf8_text_rejected_witness:
  "(\<exists>r. parse (Suc (Suc 0)) sample_env
          (make_parser (mk_source [0x62, 0xC3, 0x28]) default_max_nesting_depth) = Some r
       \<and> ec r = Some invalid_utf8_text_string \<and> stopped r \<and> events r = [])
   \<and> (\<exists>q r. parse (Suc (Suc 0)) (pausing 1 sample_env)
               (make_parser (mk_source [0xA1, 0x62, 0xC3, 0x28, 0x01]) default_max_nesting_depth)
               = Some q
          \<and> parse (Suc (Suc 0)) sample_env (restart q) = Some r
          \<and> ec r = Some invalid_utf8_text_string \<and> stopped r
          \<and> events r = [Begin_object (Some 1) tag_none])
   \<and> (\<exists>q r. parse (Suc (Suc (Suc 0))) (pausing 1 sample_env)
            (make_parser (mk_source [0x81, 0x7F, 0x61, 0xC3, 0x61, 0x28, 0xFF]) default_max_nesting_depth)
            = Some q
       \<and> parse (Suc (Suc (Suc (Suc (Suc 0))))) sample_env (restart q) = Some r
       \<and> ec r = Some invalid_utf8_text_string \<and> stopped r
       \<and> events r = [Begin_array (Some 1) tag_none])"
proof (intro conjI)
  let ?p = "make_parser (mk_source [0x62, 0xC3, 0x28]) default_max_nesting_depth"
  have "\<exists>r. parse (Suc (Suc 0)) sample_env ?p = Some r \<and> ec r = Some invalid_utf8_text_string
           \<and> stopped r \<and> events r = events ?p"
    by (rule C5_invalid_utf8_text_rejected [where tags = "[]" and x = "Definite (0x62, [], [0xC3, 0x28])" and rest = "[]"])
       (simp_all add: eval_defs wire_defs continuation_def)
  then show "\<exists>r. parse (Suc (Suc 0)) sample_env ?p = Some r
       \<and> ec r = Some invalid_utf8_text_string \<and> stopped r \<and> events r = []"
    by (simp add: make_parser_def)
next
  let ?p0 = "make_parser (mk_source [0xA1, 0x62, 0xC3, 0x28, 0x01]) default_max_nesting_depth"
  have "\<exists>q. parse (Suc (Suc 0)) (pausing 1 sample_env) ?p0 = Some q
          \<and> key_due (restart q) \<and> ec (restart q) = None \<and> \<not> eof_m (source_m (restart q))
          \<and> data (source_m (restart q)) = [0x62, 0xC3, 0x28, 0x01]
          \<and> events (restart q) = [Begin_object (Some 1) tag_none]"
    by (simp add: eval_defs wire_defs)
  then obtain q where q: "parse (Suc (Suc 0)) (pausing 1 sample_env) ?p0 = Some q"
    "key_due (restart q)" "ec (restart q) = None" "\<not> eof_m (source_m (restart q))"
    "data (source_m (restart q)) = [0x62, 0xC3, 0x28, 0x01]"
    "events (restart q) = [Begin_object (Some 1) tag_none]"
    by blast
  have "\<exists>r. parse (Suc (Suc 0)) sample_env (restart q) = Some r
           \<and> ec r = Some invalid_utf8_text_string \<and> stopped r \<and> events r = events (restart q)"
    using q(2-5)
    by (intro C5_invalid_utf8_text_rejected [where tags = "[]" and x = "Definite (0x62, [], [0xC3, 0x28])"
                       and rest = "[0x01]"])
       (simp_all add: head_defs wire_defs continuation_def)
  with q(1,6) show "\<exists>q r. parse (Suc (Suc 0)) (pausing 1 sample_env) ?p0 = Some q
          \<and> parse (Suc (Suc 0)) sample_env (restart q) = Some r
          \<and> ec r = Some invalid_utf8_text_string \<and> stopped r
          \<and> events r = [Begin_object (Some 1) tag_none]"
    by (auto simp del: parse.simps)
next
  let ?p0 = "make_parser (mk_source [0x81, 0x7F, 0x61, 0xC3, 0x61, 0x28, 0xFF]) default_max_nesting_depth"
  have "\<exists>q. parse (Suc (Suc (Suc 0))) (pausing 1 sample_env) ?p0 = Some q
          \<and> item_due (restart q) \<and> ec (restart q) = None \<and> \<not> eof_m (source_m (restart q))
          \<and> data (source_m (restart q)) = [0x7F, 0x61, 0xC3, 0x61, 0x28, 0xFF]
          \<and> events (restart q) = [Begin_array (Some 1) tag_none]"
    by (simp add: eval_defs wire_defs)
  then obtain q where q: "parse (Suc (Suc (Suc 0))) (pausing 1 sample_env) ?p0 = Some q"
    "item_due (restart q)" "ec (restart q) = None" "\<not> eof_m (source_m (restart q))"
    "data (source_m (restart q)) = [0x7F, 0x61, 0xC3, 0x61, 0x28, 0xFF]"
    "events (restart q) = [Begin_array (Some 1) tag_none]"
    by blast
  from C5_invalid_utf8_text_rejected [where p = "restart q" and tags = "[]"
                and x = "Indefinite 0x7F [(0x61, [], [0xC3]), (0x61, [], [0x28])]"
                and rest = "[]" and n = "Suc (Suc (Suc (Suc 0)))" and E = sample_env]
       q(2-6)
  have "\<exists>r. parse (Suc (Suc (Suc (Suc (Suc 0))))) sample_env (restart q) = Some r
           \<and> ec r = Some invalid_utf8_text_string \<and> stopped r
           \<and> events r = [Begin_array (Some 1) tag_none]"
    by (simp add: head_defs wire_defs continuation_def del: parse.simps)
  with q(1) show "\<exists>q r. parse (Suc (Suc (Suc 0))) (pausing 1 sample_env)
            (make_parser (mk_source [0x81, 0x7F, 0x61, 0xC3, 0x61, 0x28, 0xFF]) default_max_nesting_depth)
            = Some q
       \<and> parse (Suc (Suc (Suc (Suc (Suc 0))))) sample_env (restart q) = Some r
       \<and> ec r = Some invalid_utf8_text_string \<and> stopped r
       \<and> events r = [Begin_array (Some 1) tag_none]" by blast
qed



end
